theory Spec2Isabelle
  imports Main
begin

section \<open>JavaScript values used by the wallet\<close>

text \<open>
  A \<open>Record<string, V>\<close> is an object whose own properties are listed by
  \<open>Object.keys\<close>, \<open>Object.values\<close> and \<open>Object.entries\<close> in property order. The keys of
  the wallet's objects are outpoint keys (a transaction id followed by a decimal output
  index) and transaction ids; a transaction id is a hexadecimal hash, so no key is a
  canonical array index and property order is insertion order. The object is the list of
  its entries in that order: assigning to a new key appends, assigning to a present key
  replaces the value in place, \<open>delete\<close> removes the entry.

  Amounts are JavaScript numbers holding integers; they are modelled as exact integers,
  as the numbers are within the safe-integer range.
\<close>

type_synonym 'v jsobject = "(string \<times> 'v) list"

definition obj_keys :: "'v jsobject \<Rightarrow> string list" where
  "obj_keys obj = map fst obj"

definition obj_values :: "'v jsobject \<Rightarrow> 'v list" where
  "obj_values obj = map snd obj"

definition obj_get :: "'v jsobject \<Rightarrow> string \<Rightarrow> 'v option" where
  "obj_get obj k = map_of obj k"

fun obj_set :: "string \<Rightarrow> 'v \<Rightarrow> 'v jsobject \<Rightarrow> 'v jsobject" where
  "obj_set k v [] = [(k, v)]"
| "obj_set k v ((k', v') # rest) =
     (if k' = k then (k, v) # rest else (k', v') # obj_set k v rest)"

fun obj_delete :: "string \<Rightarrow> 'v jsobject \<Rightarrow> 'v jsobject" where
  "obj_delete k [] = []"
| "obj_delete k ((k', v') # rest) =
     (if k' = k then obj_delete k rest else (k', v') # obj_delete k rest)"

text \<open>\<open>Array.prototype.indexOf\<close>: the first position of the element, or \<open>-1\<close>.\<close>

fun indexOf :: "'a list \<Rightarrow> 'a \<Rightarrow> int" where
  "indexOf [] x = -1"
| "indexOf (y # ys) x =
     (if y = x then 0 else (let i = indexOf ys x in if i = -1 then -1 else i + 1))"

text \<open>
  A number and a string as JavaScript values, for the strict comparison \<open>!==\<close> that
  \<open>UtxoSet.add\<close> makes between the result of \<open>indexOf\<close> and the key: values of different
  types are never strictly equal.
\<close>

datatype jsvalue = JsNumber int | JsString string

definition strict_neq :: "jsvalue \<Rightarrow> jsvalue \<Rightarrow> bool" where
  "strict_neq a b = (a \<noteq> b)"

text \<open>\<open>Number.prototype.toString\<close> on a non-negative integer: its decimal digits.\<close>

fun toString :: "nat \<Rightarrow> string" where
  "toString n =
     (if n < 10 then [''0123456789'' ! n]
      else toString (n div 10) @ [''0123456789'' ! (n mod 10)])"

declare toString.simps [simp del]

section \<open>UtxoSet\<close>

text \<open>
  \<open>Api.Utxo\<close> is what the API returns for an address; \<open>UnspentOutput\<close> is the object
  built from it by \<open>new bitcore.Transaction.UnspentOutput\<close>, which accepts only a natural
  number of satoshis.
\<close>

record ApiUtxo =
  transactionId :: string
  index :: nat
  scriptPubKey :: string
  utxoValue :: nat

record UnspentOutput =
  txid :: string
  address :: string
  vout :: nat
  script :: string
  satoshis :: nat

text \<open>
  The fields of the class are \<open>utxos\<close>, \<open>inUse\<close> and \<open>availableBalance\<close>.
  \<open>updateUtxoBalance\<close> assigns \<open>this.balance\<close>, a property the class does not declare:
  the assignment creates it, so it is absent (\<open>None\<close>) until the first call.
\<close>

record UtxoSet =
  utxos :: "UnspentOutput jsobject"
  inUse :: "string list"
  availableBalance :: int
  utxoBalance :: "int option"

definition newUtxoSet :: UtxoSet where
  "newUtxoSet = \<lparr>utxos = [], inUse = [], availableBalance = 0, utxoBalance = None\<rparr>"

definition utxoSetLength :: "UtxoSet \<Rightarrow> nat" where
  "utxoSetLength s = length (obj_keys (utxos s))"

definition utxoIdOf :: "ApiUtxo \<Rightarrow> string" where
  "utxoIdOf utxo = transactionId utxo @ toString (index utxo)"

definition updateUtxoBalance :: "UtxoSet \<Rightarrow> UtxoSet" where
  "updateUtxoBalance s =
     (let utxoIds = filter (\<lambda>key. indexOf (inUse s) key = -1) (obj_keys (utxos s))
      in s\<lparr>utxoBalance :=
             Some (foldl (\<lambda>prev cur. prev + int (satoshis (the (obj_get (utxos s) cur)))) 0 utxoIds)\<rparr>)"

text \<open>
  The body of the \<open>forEach\<close> in \<open>add\<close>, on the pair of \<open>this.utxos\<close> and the local
  \<open>utxoIds\<close>. The second conjunct of the guard compares the number returned by
  \<open>indexOf\<close> with the string \<open>utxoId\<close>.
\<close>

definition newUnspentOutput :: "string \<Rightarrow> ApiUtxo \<Rightarrow> UnspentOutput" where
  "newUnspentOutput addr utxo =
     \<lparr>txid = transactionId utxo, address = addr, vout = index utxo,
      script = scriptPubKey utxo, satoshis = utxoValue utxo\<rparr>"

definition addOne ::
  "string list \<Rightarrow> string \<Rightarrow> UnspentOutput jsobject \<times> string list \<Rightarrow> ApiUtxo \<Rightarrow>
   UnspentOutput jsobject \<times> string list" where
  "addOne inUseIds addr acc utxo =
     (let utxoId = utxoIdOf utxo in
      if obj_get (fst acc) utxoId = None
         \<and> strict_neq (JsNumber (indexOf inUseIds utxoId)) (JsString utxoId)
      then (obj_set utxoId (newUnspentOutput addr utxo) (fst acc), snd acc @ [utxoId])
      else acc)"

definition add :: "ApiUtxo list \<Rightarrow> string \<Rightarrow> UtxoSet \<Rightarrow> string list \<times> UtxoSet" where
  "add newUtxos addr s =
     (let acc = foldl (addOne (inUse s) addr) (utxos s, []) newUtxos
      in (snd acc, updateUtxoBalance (s\<lparr>utxos := fst acc\<rparr>)))"

definition enable :: "string list \<Rightarrow> UtxoSet \<Rightarrow> UtxoSet" where
  "enable utxoIdsToEnable s =
     s\<lparr>inUse := filter (\<lambda>utxoId. indexOf utxoIdsToEnable utxoId = -1) (inUse s)\<rparr>"

definition clear :: "UtxoSet \<Rightarrow> UtxoSet" where
  "clear s = s\<lparr>utxos := [], inUse := [], availableBalance := 0\<rparr>"

text \<open>
  \<open>selectUtxos\<close> throws an \<open>Error\<close> whose message carries the amount needed and the
  total scanned; the other errors are those of the collaborators.
\<close>

datatype error =
    TransactionComposeError int int
  | AmountTooLarge
  | TypeError
  | SignError string
  | NetworkError string

text \<open>
  The \<open>for ... of\<close> loop of \<open>selectUtxos\<close> over \<open>Object.entries(this.utxos)\<close>, on the
  triple of the locals \<open>utxoIds\<close>, \<open>utxos\<close> and \<open>totalVal\<close>; the \<open>break\<close> is tested at
  the end of every iteration.
\<close>

fun selectLoop ::
  "string list \<Rightarrow> int \<Rightarrow> UnspentOutput jsobject \<Rightarrow>
   string list \<times> UnspentOutput list \<times> int \<Rightarrow> string list \<times> UnspentOutput list \<times> int" where
  "selectLoop inUseIds txAmount [] acc = acc"
| "selectLoop inUseIds txAmount ((utxoId, utxo) # rest) (ids, us, totalVal) =
     (let acc' = (if indexOf inUseIds utxoId = -1
                  then (ids @ [utxoId], us @ [utxo], totalVal + int (satoshis utxo))
                  else (ids, us, totalVal))
      in if snd (snd acc') \<ge> txAmount then acc'
         else selectLoop inUseIds txAmount rest acc')"

definition selectUtxos :: "UtxoSet \<Rightarrow> int \<Rightarrow> error + (string list \<times> UnspentOutput list)" where
  "selectUtxos s txAmount =
     (case selectLoop (inUse s) txAmount (utxos s) ([], [], 0) of
        (ids, us, totalVal) \<Rightarrow>
          if totalVal < txAmount then Inl (TransactionComposeError txAmount totalVal)
          else Inr (ids, us))"


text \<open>
  The quantities of the specification, recomputed from the state: the known unspent
  outputs whose key is not in the in-use list, and the sum of the values of a list of
  entries.
\<close>

definition availableEntries :: "UtxoSet \<Rightarrow> UnspentOutput jsobject" where
  "availableEntries s = filter (\<lambda>e. fst e \<notin> set (inUse s)) (utxos s)"

definition valueSum :: "UnspentOutput jsobject \<Rightarrow> int" where
  "valueSum es = sum_list (map (\<lambda>e. int (satoshis (snd e))) es)"

definition availableSum :: "UtxoSet \<Rightarrow> int" where
  "availableSum s = valueSum (availableEntries s)"

text \<open>
  \<open>greedy t tot av k\<close>: starting from the running total \<open>tot\<close>, the first \<open>k\<close> entries
  of \<open>av\<close> are what a scan that stops as soon as the total reaches \<open>t\<close> takes.
\<close>

definition greedy :: "int \<Rightarrow> int \<Rightarrow> UnspentOutput jsobject \<Rightarrow> nat \<Rightarrow> bool" where
  "greedy t tot av k \<longleftrightarrow>
     k \<le> length av
     \<and> (\<forall>j. 0 < j \<and> j < k \<longrightarrow> tot + valueSum (take j av) < t)
     \<and> (tot + valueSum (take k av) < t \<longrightarrow> k = length av)"

text \<open>
  \<open>composeTx\<close> reserves the selected inputs with \<open>this.utxoSet.inUse.push(...utxoIds)\<close>.
\<close>

definition reserve :: "string list \<Rightarrow> UtxoSet \<Rightarrow> UtxoSet" where
  "reserve ids s = s\<lparr>inUse := inUse s @ ids\<rparr>"

text \<open>
  The invariant of the data model: the keys of the known outputs are distinct (they are the
  properties of one object) and every in-use id is a known key.
\<close>

definition utxoSetInvariant :: "UtxoSet \<Rightarrow> bool" where
  "utxoSetInvariant s \<longleftrightarrow>
     distinct (obj_keys (utxos s)) \<and> set (inUse s) \<subseteq> set (obj_keys (utxos s))"

section \<open>Collaborators\<close>

text \<open>
  The wallet calls an address deriver, the API (transaction history and unspent outputs of
  an address, broadcast of a raw transaction) and the signing library. They are taken as
  parameters. The history and output queries are functions of the address; signing yields
  the id and the serialisation of the transaction, or fails; broadcasting fails with an
  error or succeeds. \<open>DEFAULT_FEE\<close> is the constant of \<open>config.json\<close>.
\<close>

datatype deriveType = Receive | Change

type_synonym Transaction = string

record Env =
  DEFAULT_FEE :: int
  deriveAddress :: "deriveType \<Rightarrow> nat \<Rightarrow> string"
  getTransactions :: "string \<Rightarrow> Transaction list"
  getUtxos :: "string \<Rightarrow> ApiUtxo list"
  signTx :: "UnspentOutput list \<Rightarrow> string \<Rightarrow> int \<Rightarrow> int \<Rightarrow> string \<Rightarrow> error + (string \<times> string)"
  postTx :: "string \<Rightarrow> error option"

section \<open>AddressManager\<close>

record AddressManager =
  receiveCounter :: nat
  changeCounter :: nat

record Derived =
  objIndex :: nat
  objAddress :: string

text \<open>
  Modelled from the spec: \<open>AddressManager.getAddresses\<close>, whose file is not among the
  sources. "Derive batchSize addresses at indices [offset, offset+batchSize)"; the
  derivation is a function of the chain type and the index and does not move a cursor.
\<close>

definition getAddresses :: "Env \<Rightarrow> nat \<Rightarrow> deriveType \<Rightarrow> nat \<Rightarrow> Derived list" where
  "getAddresses env n t offset =
     map (\<lambda>i. \<lparr>objIndex = i, objAddress = deriveAddress env t i\<rparr>) [offset ..< offset + n]"

text \<open>
  Modelled from the spec: \<open>receiveAddress.next\<close> and \<open>changeAddress.next\<close> of the
  AddressManager. "Returns the descriptor at the current cursor for chainType, then
  advances the cursor by one."
\<close>

definition nextAddress :: "Env \<Rightarrow> deriveType \<Rightarrow> AddressManager \<Rightarrow> string \<times> AddressManager" where
  "nextAddress env t am =
     (case t of
        Receive \<Rightarrow> (deriveAddress env Receive (receiveCounter am),
                     am\<lparr>receiveCounter := receiveCounter am + 1\<rparr>)
      | Change \<Rightarrow> (deriveAddress env Change (changeCounter am),
                    am\<lparr>changeCounter := changeCounter am + 1\<rparr>))"

text \<open>
  Modelled from the spec: \<open>receiveAddress.advance\<close> and \<open>changeAddress.advance\<close> of the
  AddressManager. "Sets the cursor to max(current, toIndex)."
\<close>

definition advance :: "deriveType \<Rightarrow> int \<Rightarrow> AddressManager \<Rightarrow> AddressManager" where
  "advance t toIndex am =
     (case t of
        Receive \<Rightarrow> am\<lparr>receiveCounter := nat (max (int (receiveCounter am)) toIndex)\<rparr>
      | Change \<Rightarrow> am\<lparr>changeCounter := nat (max (int (changeCounter am)) toIndex)\<rparr>)"

section \<open>Wallet\<close>

text \<open>
  A pending transaction is the object passed to \<open>pending.add\<close>; \<open>composeTx\<close> returns
  the same three properties together with the id. \<open>pending\<close> is the object
  \<open>pending.transactions\<close>. \<open>balance\<close> is \<open>undefined\<close> (\<open>None\<close>) until the first
  \<open>updateBalance\<close>. \<open>transactionsSorted\<close> is written and never read by the operations
  modelled here, and is left out.
\<close>

record PendingTx =
  utxoIds :: "string list"
  rawTx :: string
  amount :: int

record Wallet =
  balance :: "int option"
  receiveAddress :: string
  utxoSet :: UtxoSet
  addressManager :: AddressManager
  pending :: "PendingTx jsobject"
  transactionsStorage :: "Transaction list jsobject"

definition newWallet :: "Env \<Rightarrow> Wallet" where
  "newWallet env =
     (let am = \<lparr>receiveCounter = 0, changeCounter = 0\<rparr>;
          r = nextAddress env Receive am
      in \<lparr>balance = None, receiveAddress = fst r, utxoSet = newUtxoSet,
          addressManager = snd r, pending = [], transactionsStorage = []\<rparr>)"

definition pendingAmount :: "PendingTx jsobject \<Rightarrow> int" where
  "pendingAmount txs =
     (let transactions = obj_values txs
      in if length transactions = 0 then 0
         else foldl (\<lambda>prev cur. prev + amount cur) 0 transactions)"

definition pendingAdd :: "string \<Rightarrow> PendingTx \<Rightarrow> PendingTx jsobject \<Rightarrow> PendingTx jsobject" where
  "pendingAdd txId tx txs = obj_set txId tx txs"

text \<open>
  Modelled from the spec: the property \<open>totalBalance\<close> of the UtxoSet, which
  \<open>updateBalance\<close> reads and the UtxoSet source at hand does not define. "Wallet
  balance = (sum of all known UTXO values) - (sum of all pending transactions'
  totalDebited)", recomputed from the state.
\<close>

definition totalBalance :: "UtxoSet \<Rightarrow> int" where
  "totalBalance s = valueSum (utxos s)"

text \<open>
  Modelled from the spec: the method \<open>release\<close> of the UtxoSet, which \<open>deleteTx\<close> calls
  and the UtxoSet source at hand does not define (its method \<open>enable\<close> does the same).
  "Removes ids from in-use (idempotent set difference)."
\<close>

definition release :: "string list \<Rightarrow> UtxoSet \<Rightarrow> UtxoSet" where
  "release ids s = s\<lparr>inUse := filter (\<lambda>utxoId. utxoId \<notin> set ids) (inUse s)\<rparr>"

definition updateBalance :: "Wallet \<Rightarrow> Wallet" where
  "updateBalance w =
     w\<lparr>balance := Some (totalBalance (utxoSet w) - pendingAmount (pending w))\<rparr>"

definition updateUtxos :: "Env \<Rightarrow> string list \<Rightarrow> Wallet \<Rightarrow> Wallet" where
  "updateUtxos env addresses w =
     updateBalance
       (foldl (\<lambda>w' addr. w'\<lparr>utxoSet := snd (add (getUtxos env addr) addr (utxoSet w'))\<rparr>)
          w addresses)"

definition addTransactions :: "Env \<Rightarrow> string list \<Rightarrow> Wallet \<Rightarrow> string list \<times> Wallet" where
  "addTransactions env addresses w =
     foldl (\<lambda>acc addr.
              let transactions = getTransactions env addr
              in if length transactions \<noteq> 0
                 then (fst acc @ [addr],
                       (snd acc)\<lparr>transactionsStorage :=
                                   obj_set addr transactions (transactionsStorage (snd acc))\<rparr>)
                 else acc)
       ([], w) addresses"

text \<open>
  \<open>doDiscovery\<close> calls itself for as long as a batch shows activity, so it need not
  return: \<open>None\<close> is the run that never ends.
\<close>

partial_function (option) doDiscovery ::
  "Env \<Rightarrow> nat \<Rightarrow> deriveType \<Rightarrow> nat \<Rightarrow> nat \<Rightarrow> Wallet \<Rightarrow> (int \<times> Wallet) option" where
  "doDiscovery env threshold t n offset w =
     (let derivedObjs = getAddresses env n t offset;
          addresses = map objAddress derivedObjs;
          r = addTransactions env addresses w;
          addressesWithTx = fst r
      in if length addressesWithTx = 0
         then Some (int offset - (int threshold - int n) - 1, snd r)
         else
           let newN = foldl (\<lambda>prev cur. max prev (objIndex cur)) 0
                        (filter (\<lambda>obj. indexOf addressesWithTx (objAddress obj) \<noteq> -1)
                           derivedObjs) + 1
           in doDiscovery env threshold t newN (offset + n) (snd r))"

definition addressDiscovery :: "Env \<Rightarrow> nat \<Rightarrow> Wallet \<Rightarrow> Wallet option" where
  "addressDiscovery env threshold w =
     (case doDiscovery env threshold Receive threshold 0 w of
        None \<Rightarrow> None
      | Some (highestReceiveIndex, w1) \<Rightarrow>
          (case doDiscovery env threshold Change threshold 0 w1 of
             None \<Rightarrow> None
           | Some (highestChangeIndex, w2) \<Rightarrow>
               Some (updateUtxos env (obj_keys (transactionsStorage w2))
                       (w2\<lparr>addressManager :=
                             advance Change (highestChangeIndex + 1)
                               (advance Receive (highestReceiveIndex + 1)
                                  (addressManager w2))\<rparr>))))"

definition isSafeInteger :: "int \<Rightarrow> bool" where
  "isSafeInteger n \<longleftrightarrow> - 9007199254740991 \<le> n \<and> n \<le> 9007199254740991"

text \<open>The default parameter \<open>fee = DEFAULT_FEE\<close> of \<open>composeTx\<close>.\<close>

definition feeOf :: "Env \<Rightarrow> int option \<Rightarrow> int" where
  "feeOf env feeOpt = (case feeOpt of None \<Rightarrow> DEFAULT_FEE env | Some f \<Rightarrow> f)"

text \<open>
  \<open>composeTx\<close> returns the error thrown, or the id with the pending transaction, and the
  wallet as the call leaves it. An empty \<open>changeAddrOverride\<close> is falsy, like an absent
  one. The signer stands for the library: the lookup of the private keys of the selected
  outputs, the construction of the transaction, its signature, its id and its
  serialisation.
\<close>

definition composeTx ::
  "Env \<Rightarrow> string \<Rightarrow> int \<Rightarrow> int option \<Rightarrow> string option \<Rightarrow> Wallet \<Rightarrow>
   (error + string \<times> PendingTx) \<times> Wallet" where
  "composeTx env toAddr amt feeOpt changeAddrOverride w =
     (let fee = feeOf env feeOpt in
      if \<not> isSafeInteger amt then (Inl AmountTooLarge, w)
      else
        case selectUtxos (utxoSet w) (amt + fee) of
          Inl e \<Rightarrow> (Inl e, w)
        | Inr (ids, us) \<Rightarrow>
            let c = (case changeAddrOverride of
                       None \<Rightarrow> nextAddress env Change (addressManager w)
                     | Some a \<Rightarrow> if a = [] then nextAddress env Change (addressManager w)
                                else (a, addressManager w));
                w1 = w\<lparr>addressManager := snd c\<rparr>
            in case signTx env us toAddr amt fee (fst c) of
                 Inl e \<Rightarrow> (Inl e, w1)
               | Inr (txId, raw) \<Rightarrow>
                   let tx = \<lparr>utxoIds = ids, rawTx = raw, amount = amt + fee\<rparr>;
                       w2 = w1\<lparr>utxoSet := reserve ids (utxoSet w1)\<rparr>;
                       w3 = w2\<lparr>pending := pendingAdd txId tx (pending w2)\<rparr>;
                       w4 = w3\<lparr>utxoSet := updateUtxoBalance (utxoSet w3)\<rparr>;
                       w5 = updateBalance w4;
                       r = nextAddress env Receive (addressManager w5)
                   in (Inr (txId, tx), w5\<lparr>receiveAddress := fst r, addressManager := snd r\<rparr>))"

text \<open>
  \<open>deleteTx\<close> destructures \<open>this.pending.transactions[id]\<close>, which throws a
  \<open>TypeError\<close> when the id is not tracked.
\<close>

definition deleteTx :: "string \<Rightarrow> Wallet \<Rightarrow> (error + unit) \<times> Wallet" where
  "deleteTx txId w =
     (case obj_get (pending w) txId of
        None \<Rightarrow> (Inl TypeError, w)
      | Some tx \<Rightarrow>
          let w1 = w\<lparr>pending := obj_delete txId (pending w)\<rparr>;
              w2 = w1\<lparr>utxoSet := release (utxoIds tx) (utxoSet w1)\<rparr>;
              w3 = w2\<lparr>utxoSet := updateUtxoBalance (utxoSet w2)\<rparr>
          in (Inr (), updateBalance w3))"

definition sendTx ::
  "Env \<Rightarrow> string \<Rightarrow> int \<Rightarrow> int option \<Rightarrow> Wallet \<Rightarrow> (error + string) \<times> Wallet" where
  "sendTx env toAddr amt feeOpt w =
     (case composeTx env toAddr amt feeOpt None w of
        (Inl e, w1) \<Rightarrow> (Inl e, w1)
      | (Inr (txId, tx), w1) \<Rightarrow>
          (case postTx env (rawTx tx) of
             None \<Rightarrow> (Inr txId, w1)
           | Some e \<Rightarrow>
               (case deleteTx txId w1 of
                  (Inl e', w2) \<Rightarrow> (Inl e', w2)
                | (Inr u, w2) \<Rightarrow> (Inl e, w2))))"

text \<open>
  The total of the specification: the sum of the amounts of all tracked pending
  transactions.
\<close>

definition pendingTotal :: "PendingTx jsobject \<Rightarrow> int" where
  "pendingTotal txs = sum_list (map (\<lambda>e. amount (snd e)) txs)"

text \<open>
  Whether the derivation index has any transaction history, and the indices of a batch
  that have.
\<close>

definition active :: "Env \<Rightarrow> deriveType \<Rightarrow> nat \<Rightarrow> bool" where
  "active env t i \<longleftrightarrow> getTransactions env (deriveAddress env t i) \<noteq> []"

definition activeIndices :: "Env \<Rightarrow> deriveType \<Rightarrow> nat \<Rightarrow> nat \<Rightarrow> nat list" where
  "activeIndices env t n offset = filter (active env t) [offset ..< offset + n]"

section \<open>Example states\<close>

definition exampleUtxos :: "ApiUtxo list" where
  "exampleUtxos =
     [\<lparr>transactionId = ''tx1'', index = 0, scriptPubKey = ''76a9'', utxoValue = 500\<rparr>,
      \<lparr>transactionId = ''tx2'', index = 0, scriptPubKey = ''76a9'', utxoValue = 700\<rparr>]"

definition exampleSet :: UtxoSet where
  "exampleSet = snd (add exampleUtxos ''kaspatest:qq0'' newUtxoSet)"


text \<open>The example set with its first output reserved, as a composed payment leaves it.\<close>

definition reservedExample :: UtxoSet where
  "reservedExample = reserve [''tx10''] exampleSet"

text \<open>
  A set that knows no output and holds the key of the first example output in its in-use
  list.
\<close>

definition inUseOnly :: UtxoSet where
  "inUseOnly = newUtxoSet\<lparr>inUse := [''tx10'']\<rparr>"

text \<open>
  Collaborators for the examples: receive addresses with history at the given indices,
  change addresses with none, the two example outputs on the first receive address, a
  signer that answers, and a broadcast that fails. The example of the specification has
  history at the receive indices 0, 2 and 5.
\<close>

definition historyEnv :: "nat list \<Rightarrow> Env" where
  "historyEnv idxs =
     \<lparr>DEFAULT_FEE = 1000,
      deriveAddress = (\<lambda>t i. (case t of Receive \<Rightarrow> ''kaspatest:qq'' | Change \<Rightarrow> ''kaspatest:qp'')
                                @ toString i),
      getTransactions = (\<lambda>a. if a \<in> set (map (\<lambda>i. ''kaspatest:qq'' @ toString i) idxs)
                              then [''11c4b823''] else []),
      getUtxos = (\<lambda>a. if a = ''kaspatest:qq0'' then exampleUtxos else []),
      signTx = (\<lambda>us toAddr amt fee changeAddr. Inr (''d7801740'', ''0100000001c9'')),
      postTx = (\<lambda>raw. Some (NetworkError ''FetchError''))\<rparr>"

definition exampleEnv :: Env where
  "exampleEnv = historyEnv [0, 2, 5]"

definition exampleWallet :: Wallet where
  "exampleWallet = updateUtxos exampleEnv [''kaspatest:qq0''] (newWallet exampleEnv)"

definition examplePending :: PendingTx where
  "examplePending = \<lparr>utxoIds = [''tx10'', ''tx20''], rawTx = ''0100000001c9'', amount = 610\<rparr>"

text \<open>
  The example wallet after composing a payment of 600 with a fee of 10: both outputs
  reserved, the payment pending, one change address and one more receive address issued.
\<close>

definition composedExample :: Wallet where
  "composedExample =
     \<lparr>balance = Some 590, receiveAddress = ''kaspatest:qq1'',
      utxoSet = exampleSet\<lparr>inUse := [''tx10'', ''tx20''], utxoBalance := Some 0\<rparr>,
      addressManager = \<lparr>receiveCounter = 2, changeCounter = 1\<rparr>,
      pending = [(''d7801740'', examplePending)], transactionsStorage = []\<rparr>"

section \<open>Properties of the UtxoSet\<close>

lemma indexOf_ge: "indexOf xs x \<ge> -1"
  by (induction xs) (auto simp: Let_def)

lemma indexOf_absent: "indexOf xs x = -1 \<longleftrightarrow> x \<notin> set xs"
proof (induction xs)
  case Nil
  show ?case by simp
next
  case (Cons y ys)
  have "indexOf ys x \<ge> -1" by (rule indexOf_ge)
  then show ?case using Cons by (auto simp: Let_def)
qed

lemma valueSum_append: "valueSum (xs @ ys) = valueSum xs + valueSum ys"
  by (simp add: valueSum_def)

lemma valueSum_nonneg: "0 \<le> valueSum xs"
  unfolding valueSum_def by (induction xs) simp_all

lemma valueSum_take_le: "valueSum (take k xs) \<le> valueSum xs"
proof -
  have "valueSum xs = valueSum (take k xs) + valueSum (drop k xs)"
    by (metis append_take_drop_id valueSum_append)
  then show ?thesis using valueSum_nonneg [of "drop k xs"] by simp
qed

lemma selectLoop_skip:
  "utxoId \<in> set iu \<Longrightarrow> \<not> t \<le> tot \<Longrightarrow>
     selectLoop iu t ((utxoId, utxo) # es) (ids, us, tot) = selectLoop iu t es (ids, us, tot)"
  by (simp add: indexOf_absent)

lemma selectLoop_skip_stop:
  "utxoId \<in> set iu \<Longrightarrow> t \<le> tot \<Longrightarrow>
     selectLoop iu t ((utxoId, utxo) # es) (ids, us, tot) = (ids, us, tot)"
  by (simp add: indexOf_absent)

lemma selectLoop_take:
  "utxoId \<notin> set iu \<Longrightarrow> \<not> t \<le> tot + int (satoshis utxo) \<Longrightarrow>
     selectLoop iu t ((utxoId, utxo) # es) (ids, us, tot) =
       selectLoop iu t es (ids @ [utxoId], us @ [utxo], tot + int (satoshis utxo))"
  by (simp add: indexOf_absent)

lemma selectLoop_take_stop:
  "utxoId \<notin> set iu \<Longrightarrow> t \<le> tot + int (satoshis utxo) \<Longrightarrow>
     selectLoop iu t ((utxoId, utxo) # es) (ids, us, tot) =
       (ids @ [utxoId], us @ [utxo], tot + int (satoshis utxo))"
  by (simp add: indexOf_absent)

lemma greedy_0: "t \<le> tot \<Longrightarrow> greedy t tot av 0"
  by (simp add: greedy_def valueSum_def)

lemma greedy_Nil: "greedy t tot [] 0"
  by (simp add: greedy_def)

lemma greedy_1: "t \<le> tot + int (satoshis (snd e)) \<Longrightarrow> greedy t tot (e # av) (Suc 0)"
  by (simp add: greedy_def valueSum_def)

lemma greedy_Suc:
  assumes nt: "\<not> t \<le> tot + int (satoshis (snd e))"
      and g: "greedy t (tot + int (satoshis (snd e))) av k"
  shows "greedy t tot (e # av) (Suc k)"
proof -
  have len: "Suc k \<le> length (e # av)" using g by (simp add: greedy_def)
  have small: "tot + valueSum (take j (e # av)) < t" if "0 < j \<and> j < Suc k" for j
  proof (cases j)
    case 0
    with that show ?thesis by simp
  next
    case (Suc j')
    have eq: "valueSum (take j (e # av)) = int (satoshis (snd e)) + valueSum (take j' av)"
      by (simp add: Suc valueSum_def)
    show ?thesis
    proof (cases "j' = 0")
      case True
      with eq nt show ?thesis by (simp add: valueSum_def)
    next
      case False
      then have "0 < j' \<and> j' < k" using that Suc by simp
      with g have "tot + int (satoshis (snd e)) + valueSum (take j' av) < t"
        unfolding greedy_def by blast
      with eq show ?thesis by simp
    qed
  qed
  have eqk: "valueSum (take (Suc k) (e # av)) = int (satoshis (snd e)) + valueSum (take k av)"
    by (simp add: valueSum_def)
  have "tot + int (satoshis (snd e)) + valueSum (take k av) < t \<longrightarrow> k = length av"
    using g unfolding greedy_def by blast
  then have last: "tot + valueSum (take (Suc k) (e # av)) < t \<longrightarrow> Suc k = length (e # av)"
    unfolding eqk by (simp add: add.assoc)
  show ?thesis unfolding greedy_def using len small last by blast
qed

text \<open>
  The loop of \<open>selectUtxos\<close> takes a prefix of the entries that are not in use, and
  the prefix is the greedy one.
\<close>

lemma selectLoop_prefix:
  "\<exists>k. selectLoop iu t es (ids, us, tot) =
       (ids @ map fst (take k (filter (\<lambda>e. fst e \<notin> set iu) es)),
        us @ map snd (take k (filter (\<lambda>e. fst e \<notin> set iu) es)),
        tot + valueSum (take k (filter (\<lambda>e. fst e \<notin> set iu) es)))
     \<and> greedy t tot (filter (\<lambda>e. fst e \<notin> set iu) es) k"
proof (induction es arbitrary: ids us tot)
  case Nil
  show ?case using greedy_Nil [of t tot] by (intro exI [of _ 0]) (simp add: valueSum_def)
next
  case (Cons e es)
  obtain utxoId utxo where e: "e = (utxoId, utxo)" by (cases e)
  let ?av = "filter (\<lambda>e. fst e \<notin> set iu) es"
  show ?case
  proof (cases "utxoId \<in> set iu")
    case True
    then have av: "filter (\<lambda>e. fst e \<notin> set iu) (e # es) = ?av" by (simp add: e)
    show ?thesis
    proof (cases "t \<le> tot")
      case True
      have "selectLoop iu t (e # es) (ids, us, tot) =
              (ids @ map fst (take 0 ?av), us @ map snd (take 0 ?av), tot + valueSum (take 0 ?av))"
        using selectLoop_skip_stop [OF \<open>utxoId \<in> set iu\<close> True] by (simp add: e valueSum_def)
      with greedy_0 [OF True] show ?thesis unfolding av by blast
    next
      case False
      have "selectLoop iu t (e # es) (ids, us, tot) = selectLoop iu t es (ids, us, tot)"
        unfolding e by (rule selectLoop_skip [OF True False])
      with Cons.IH [of ids us tot] show ?thesis unfolding av by simp
    qed
  next
    case False
    then have av: "filter (\<lambda>e. fst e \<notin> set iu) (e # es) = e # ?av" by (simp add: e)
    let ?v = "int (satoshis utxo)"
    show ?thesis
    proof (cases "t \<le> tot + ?v")
      case True
      have "selectLoop iu t (e # es) (ids, us, tot) =
              (ids @ map fst (take (Suc 0) (e # ?av)), us @ map snd (take (Suc 0) (e # ?av)),
               tot + valueSum (take (Suc 0) (e # ?av)))"
        using selectLoop_take_stop [OF False True] by (simp add: e valueSum_def)
      moreover have "greedy t tot (e # ?av) (Suc 0)"
        using True by (intro greedy_1) (simp add: e)
      ultimately show ?thesis unfolding av by blast
    next
      case nt: False
      from Cons.IH [of "ids @ [utxoId]" "us @ [utxo]" "tot + ?v"] obtain k where
        k: "selectLoop iu t es (ids @ [utxoId], us @ [utxo], tot + ?v) =
           ((ids @ [utxoId]) @ map fst (take k ?av), (us @ [utxo]) @ map snd (take k ?av),
            tot + ?v + valueSum (take k ?av))"
        and g: "greedy t (tot + ?v) ?av k"
        by blast
      have "selectLoop iu t (e # es) (ids, us, tot) =
              (ids @ map fst (take (Suc k) (e # ?av)), us @ map snd (take (Suc k) (e # ?av)),
               tot + valueSum (take (Suc k) (e # ?av)))"
        using selectLoop_take [OF False nt] k by (simp add: e valueSum_def)
      moreover have "greedy t tot (e # ?av) (Suc k)"
        using nt g by (intro greedy_Suc) (simp_all add: e)
      ultimately show ?thesis unfolding av by blast
    qed
  qed
qed


subsection \<open>Decimal representation of an index\<close>

lemma toString_small: "n < 10 \<Longrightarrow> toString n = [''0123456789'' ! n]"
  by (subst toString.simps) simp

lemma toString_large:
  "\<not> n < 10 \<Longrightarrow> toString n = toString (n div 10) @ [''0123456789'' ! (n mod 10)]"
  by (subst toString.simps) simp

lemma toString_nonempty: "toString n \<noteq> []"
  by (cases "n < 10") (simp_all add: toString_small toString_large)

lemma digit_inj:
  assumes "a < 10" "b < 10" "''0123456789'' ! a = ''0123456789'' ! b"
  shows "a = b"
proof -
  have "distinct ''0123456789''" by simp
  moreover have "a < length ''0123456789''" "b < length ''0123456789''"
    using assms by simp_all
  ultimately show ?thesis using assms(3) by (simp only: nth_eq_iff_index_eq)
qed

text \<open>Different indices have different decimal representations.\<close>

lemma toString_inj: "toString n = toString m \<Longrightarrow> n = m"
proof (induction n arbitrary: m rule: less_induct)
  case (less n)
  show ?case
  proof (cases "n < 10")
    case n: True
    show ?thesis
    proof (cases "m < 10")
      case True
      with n less.prems show ?thesis
        by (simp only: toString_small) (simp only: list.inject digit_inj)
    next
      case False
      with n less.prems toString_nonempty [of "m div 10"] show ?thesis
        by (simp add: toString_small toString_large)
    qed
  next
    case n: False
    show ?thesis
    proof (cases "m < 10")
      case True
      with n less.prems toString_nonempty [of "n div 10"] show ?thesis
        by (simp add: toString_small toString_large)
    next
      case False
      with n less.prems have eq: "toString (n div 10) = toString (m div 10)"
        and d: "''0123456789'' ! (n mod 10) = ''0123456789'' ! (m mod 10)"
        by (simp_all add: toString_large)
      from n have "n div 10 < n" by simp
      from less.IH [OF this eq] have q: "n div 10 = m div 10" .
      have r: "n mod 10 = m mod 10"
        using d by (intro digit_inj) simp_all
      from q r show ?thesis by (metis div_mult_mod_eq)
    qed
  qed
qed

subsection \<open>Selection of inputs\<close>

lemma toString_0: "toString 0 = ''0''"
  by (simp add: toString.simps)

lemma exampleSet_eq:
  "exampleSet =
     \<lparr>utxos = [(''tx10'', \<lparr>txid = ''tx1'', address = ''kaspatest:qq0'', vout = 0, script = ''76a9'', satoshis = 500\<rparr>),
               (''tx20'', \<lparr>txid = ''tx2'', address = ''kaspatest:qq0'', vout = 0, script = ''76a9'', satoshis = 700\<rparr>)],
      inUse = [], availableBalance = 0, utxoBalance = Some 1200\<rparr>"
  by (simp add: exampleSet_def exampleUtxos_def add_def addOne_def newUnspentOutput_def utxoIdOf_def toString_0
      newUtxoSet_def updateUtxoBalance_def obj_get_def obj_keys_def strict_neq_def Let_def)

text \<open>
  C4. \<open>selectUtxos\<close> scans the known outputs that are not in use in the order of the
  object's entries, which is insertion order, and stops as soon as the running total
  reaches the amount. When the outputs not in use sum to less than the amount it throws,
  reporting the amount needed and the total scanned, which is then the sum of all of them.
  Otherwise it returns the first \<open>k\<close> of them, whose sum reaches the amount, while no
  shorter non-empty prefix does.
\<close>

theorem selectUtxos_greedy:
  "(availableSum s < txAmount \<longrightarrow>
      selectUtxos s txAmount = Inl (TransactionComposeError txAmount (availableSum s)))
   \<and> (txAmount \<le> availableSum s \<longrightarrow>
        (\<exists>k. selectUtxos s txAmount =
                Inr (map fst (take k (availableEntries s)), map snd (take k (availableEntries s)))
           \<and> txAmount \<le> valueSum (take k (availableEntries s))
           \<and> (\<forall>j. 0 < j \<and> j < k \<longrightarrow> valueSum (take j (availableEntries s)) < txAmount)))"
proof -
  let ?av = "availableEntries s"
  from selectLoop_prefix [of "inUse s" txAmount "utxos s" "[]" "[]" 0] obtain k where
    loop: "selectLoop (inUse s) txAmount (utxos s) ([], [], 0) =
             (map fst (take k ?av), map snd (take k ?av), valueSum (take k ?av))"
    and g: "greedy txAmount 0 ?av k"
    unfolding availableEntries_def by auto
  from g have full: "valueSum (take k ?av) < txAmount \<Longrightarrow> take k ?av = ?av"
    unfolding greedy_def by simp
  from g have early: "\<forall>j. 0 < j \<and> j < k \<longrightarrow> valueSum (take j ?av) < txAmount"
    unfolding greedy_def by simp
  have le: "valueSum (take k ?av) \<le> availableSum s"
    unfolding availableSum_def by (rule valueSum_take_le)
  have fails: "selectUtxos s txAmount = Inl (TransactionComposeError txAmount (availableSum s))"
    if "availableSum s < txAmount"
  proof -
    from that le have lt: "valueSum (take k ?av) < txAmount" by simp
    with full have "valueSum (take k ?av) = availableSum s" by (simp add: availableSum_def)
    with lt show ?thesis by (simp add: selectUtxos_def loop)
  qed
  have succeeds: "selectUtxos s txAmount = Inr (map fst (take k ?av), map snd (take k ?av))
                  \<and> txAmount \<le> valueSum (take k ?av)"
    if "txAmount \<le> availableSum s"
  proof -
    have ge: "txAmount \<le> valueSum (take k ?av)"
    proof (rule ccontr)
      assume "\<not> txAmount \<le> valueSum (take k ?av)"
      then have lt: "valueSum (take k ?av) < txAmount" by simp
      with full have "valueSum (take k ?av) = availableSum s" by (simp add: availableSum_def)
      with lt that show False by simp
    qed
    then show ?thesis by (simp add: selectUtxos_def loop)
  qed
  from fails succeeds early show ?thesis by blast
qed

text \<open>
  The example of the specification: outputs of 500 and 700 inserted in that order, none in
  use. Selecting 600 returns both, and selecting 1300 fails reporting 1200.
\<close>

theorem selectUtxos_greedy_witness:
  "600 \<le> availableSum exampleSet
   \<and> selectUtxos exampleSet 600 = Inr ([''tx10'', ''tx20''], map snd (utxos exampleSet))
   \<and> valueSum (utxos exampleSet) = 1200
   \<and> availableSum exampleSet < 1300
   \<and> selectUtxos exampleSet 1300 = Inl (TransactionComposeError 1300 1200)"
  using selectUtxos_greedy [of exampleSet 600] selectUtxos_greedy [of exampleSet 1300]
  by (simp add: exampleSet_eq selectUtxos_def availableSum_def availableEntries_def valueSum_def)


lemma foldl_plus_sum: "foldl (\<lambda>prev cur. prev + f cur) a xs = a + sum_list (map f xs)"
  for a :: int
  by (induction xs arbitrary: a) simp_all

lemma map_of_entry: "distinct (map fst es) \<Longrightarrow> e \<in> set es \<Longrightarrow> map_of es (fst e) = Some (snd e)"
  by (cases e) simp

lemma keyed_values:
  assumes "distinct (map fst es)"
  shows "map (\<lambda>k. g (the (map_of es k))) (filter P (map fst es)) =
         map (\<lambda>e. g (snd e)) (filter (\<lambda>e. P (fst e)) es)"
proof -
  have "filter P (map fst es) = map fst (filter (\<lambda>e. P (fst e)) es)"
    by (simp add: filter_map comp_def)
  moreover have "map (\<lambda>k. g (the (map_of es k))) (map fst (filter (\<lambda>e. P (fst e)) es)) =
                 map (\<lambda>e. g (snd e)) (filter (\<lambda>e. P (fst e)) es)"
    using assms by (auto simp: map_of_entry)
  ultimately show ?thesis by simp
qed

text \<open>
  What \<open>updateUtxoBalance\<close> stores is the sum of the values of the known outputs that
  are not in use.
\<close>

lemma updateUtxoBalance_sum:
  assumes "distinct (obj_keys (utxos s))"
  shows "updateUtxoBalance s = s\<lparr>utxoBalance := Some (availableSum s)\<rparr>"
proof -
  have "map (\<lambda>k. int (satoshis (the (map_of (utxos s) k))))
          (filter (\<lambda>k. k \<notin> set (inUse s)) (map fst (utxos s))) =
        map (\<lambda>e. int (satoshis (snd e))) (filter (\<lambda>e. fst e \<notin> set (inUse s)) (utxos s))"
    using assms unfolding obj_keys_def by (rule keyed_values)
  then show ?thesis
    by (simp add: updateUtxoBalance_def foldl_plus_sum indexOf_absent obj_keys_def obj_get_def
        availableSum_def availableEntries_def valueSum_def)
qed

lemma updateUtxoBalance_fields [simp]:
  "utxos (updateUtxoBalance s) = utxos s"
  "inUse (updateUtxoBalance s) = inUse s"
  "availableBalance (updateUtxoBalance s) = availableBalance s"
  by (simp_all add: updateUtxoBalance_def Let_def)

lemma updateUtxoBalance_idem: "updateUtxoBalance (updateUtxoBalance s) = updateUtxoBalance s"
  by (simp add: updateUtxoBalance_def Let_def)

lemma updateUtxoBalance_utxos_self: "updateUtxoBalance (s\<lparr>utxos := utxos s\<rparr>) = updateUtxoBalance s"
  by simp

lemma obj_get_None: "obj_get obj k = None \<longleftrightarrow> k \<notin> set (obj_keys obj)"
  by (simp add: obj_get_def obj_keys_def map_of_eq_None_iff)

lemma obj_set_fresh: "k \<notin> set (obj_keys obj) \<Longrightarrow> obj_set k v obj = obj @ [(k, v)]"
  by (induction obj) (auto simp: obj_keys_def)

lemma addOne_known:
  "utxoIdOf x \<in> set (obj_keys us) \<Longrightarrow> addOne iu a (us, ids) x = (us, ids)"
  by (simp add: addOne_def obj_get_None Let_def)

lemma addOne_fresh:
  "utxoIdOf x \<notin> set (obj_keys us) \<Longrightarrow>
     addOne iu a (us, ids) x = (us @ [(utxoIdOf x, newUnspentOutput a x)], ids @ [utxoIdOf x])"
  by (simp add: addOne_def obj_get_None obj_set_fresh strict_neq_def Let_def)

text \<open>
  The \<open>forEach\<close> of \<open>add\<close> appends the incoming outputs whose key is not yet known,
  the first of each key.
\<close>

lemma foldl_addOne:
  "\<exists>added. foldl (addOne iu a) (us, ids) xs = (us @ added, ids @ map fst added)
     \<and> distinct (map fst added)
     \<and> set (map fst added) = utxoIdOf ` set xs - set (obj_keys us)
     \<and> set added \<subseteq> (\<lambda>x. (utxoIdOf x, newUnspentOutput a x)) ` set xs"
proof (induction xs arbitrary: us ids)
  case Nil
  show ?case by (intro exI [of _ "[]"]) simp
next
  case (Cons x xs)
  show ?case
  proof (cases "utxoIdOf x \<in> set (obj_keys us)")
    case True
    from Cons.IH [of us ids] obtain added where
      a: "foldl (addOne iu a) (us, ids) xs = (us @ added, ids @ map fst added)"
         "distinct (map fst added)"
         "set (map fst added) = utxoIdOf ` set xs - set (obj_keys us)"
         "set added \<subseteq> (\<lambda>x. (utxoIdOf x, newUnspentOutput a x)) ` set xs"
      by blast
    have "foldl (addOne iu a) (us, ids) (x # xs) = (us @ added, ids @ map fst added)"
      using a(1) by (simp add: addOne_known [OF True])
    moreover have "set (map fst added) = utxoIdOf ` set (x # xs) - set (obj_keys us)"
      using a(3) True by auto
    moreover have "set added \<subseteq> (\<lambda>x. (utxoIdOf x, newUnspentOutput a x)) ` set (x # xs)"
      using a(4) by auto
    ultimately show ?thesis using a(2) by blast
  next
    case False
    let ?e = "(utxoIdOf x, newUnspentOutput a x)"
    from Cons.IH [of "us @ [?e]" "ids @ [utxoIdOf x]"] obtain added where
      a: "foldl (addOne iu a) (us @ [?e], ids @ [utxoIdOf x]) xs =
            ((us @ [?e]) @ added, (ids @ [utxoIdOf x]) @ map fst added)"
         "distinct (map fst added)"
         "set (map fst added) = utxoIdOf ` set xs - set (obj_keys (us @ [?e]))"
         "set added \<subseteq> (\<lambda>x. (utxoIdOf x, newUnspentOutput a x)) ` set xs"
      by blast
    have "foldl (addOne iu a) (us, ids) (x # xs) = (us @ (?e # added), ids @ map fst (?e # added))"
      using a(1) by (simp add: addOne_fresh [OF False])
    moreover have "distinct (map fst (?e # added))"
      using a(2,3) by (auto simp: obj_keys_def)
    moreover have "set (map fst (?e # added)) = utxoIdOf ` set (x # xs) - set (obj_keys us)"
      using a(3) False by (auto simp: obj_keys_def)
    moreover have "set (?e # added) \<subseteq> (\<lambda>x. (utxoIdOf x, newUnspentOutput a x)) ` set (x # xs)"
      using a(4) by auto
    ultimately show ?thesis by blast
  qed
qed

lemma foldl_addOne_known:
  "utxoIdOf ` set xs \<subseteq> set (obj_keys us) \<Longrightarrow> foldl (addOne iu a) (us, ids) xs = (us, ids)"
  by (induction xs) (simp_all add: addOne_known)

text \<open>
  In a set that satisfies the invariant, \<open>add\<close> appends exactly the incoming outputs
  whose key is neither known nor in use (the first of each key, built from the incoming
  output), skips the others without error and returns the keys it inserted. It keeps the
  in-use list and the invariant. A second call with the same list returns the empty list
  and leaves the whole set, its balance included, as it is.
\<close>

lemma add_under_invariant:
  assumes "utxoSetInvariant s"
  shows "\<exists>added. utxos (snd (add xs a s)) = utxos s @ added
           \<and> fst (add xs a s) = map fst added
           \<and> distinct (map fst added)
           \<and> set (map fst added) = utxoIdOf ` set xs - set (obj_keys (utxos s)) - set (inUse s)
           \<and> set added \<subseteq> (\<lambda>x. (utxoIdOf x, newUnspentOutput a x)) ` set xs
           \<and> inUse (snd (add xs a s)) = inUse s
           \<and> utxoSetInvariant (snd (add xs a s))
           \<and> add xs a (snd (add xs a s)) = ([], snd (add xs a s))"
proof -
  from foldl_addOne [of "inUse s" a "utxos s" "[]" xs] obtain added where
    a: "foldl (addOne (inUse s) a) (utxos s, []) xs = (utxos s @ added, map fst added)"
       "distinct (map fst added)"
       "set (map fst added) = utxoIdOf ` set xs - set (obj_keys (utxos s))"
       "set added \<subseteq> (\<lambda>x. (utxoIdOf x, newUnspentOutput a x)) ` set xs"
    by auto
  let ?s' = "snd (add xs a s)"
  have s': "?s' = updateUtxoBalance (s\<lparr>utxos := utxos s @ added\<rparr>)"
    by (simp add: add_def a(1))
  have ut: "utxos ?s' = utxos s @ added" by (simp add: s')
  have iu: "inUse ?s' = inUse s" by (simp add: s')
  have ids: "fst (add xs a s) = map fst added" by (simp add: add_def a(1))
  from assms have sub: "set (inUse s) \<subseteq> set (obj_keys (utxos s))"
    and dist: "distinct (obj_keys (utxos s))"
    by (simp_all add: utxoSetInvariant_def)
  have keys: "set (map fst added) = utxoIdOf ` set xs - set (obj_keys (utxos s)) - set (inUse s)"
    using a(3) sub by auto
  have inv: "utxoSetInvariant ?s'"
    using a(2,3) sub dist by (auto simp: utxoSetInvariant_def ut iu obj_keys_def)
  have known: "utxoIdOf ` set xs \<subseteq> set (obj_keys (utxos ?s'))"
    using a(3) by (auto simp: ut obj_keys_def)
  have "foldl (addOne (inUse ?s') a) (utxos ?s', []) xs = (utxos ?s', [])"
    using known by (rule foldl_addOne_known)
  then have again: "add xs a ?s' = ([], updateUtxoBalance (?s'\<lparr>utxos := utxos ?s'\<rparr>))"
    by (simp add: add_def)
  have "updateUtxoBalance (?s'\<lparr>utxos := utxos ?s'\<rparr>) = ?s'"
    unfolding updateUtxoBalance_utxos_self by (simp add: s' updateUtxoBalance_idem)
  with again have idem: "add xs a ?s' = ([], ?s')" by simp
  from ut ids a(2) keys a(4) iu inv idem show ?thesis by blast
qed

lemma utxoSetInvariant_new: "utxoSetInvariant newUtxoSet"
  by (simp add: utxoSetInvariant_def newUtxoSet_def obj_keys_def)

text \<open>
  The empty set satisfies the invariant; adding the two example outputs returns both
  keys, and adding them again returns nothing and changes nothing.
\<close>

lemma add_example_twice:
  "utxoSetInvariant newUtxoSet
   \<and> fst (add exampleUtxos ''kaspatest:qq0'' newUtxoSet) = [''tx10'', ''tx20'']
   \<and> add exampleUtxos ''kaspatest:qq0'' exampleSet = ([], exampleSet)
   \<and> utxoBalance exampleSet = Some 1200"
proof -
  from add_under_invariant [OF utxoSetInvariant_new, of exampleUtxos "''kaspatest:qq0''"]
  have "add exampleUtxos ''kaspatest:qq0'' exampleSet = ([], exampleSet)"
    unfolding exampleSet_def by blast
  moreover have "fst (add exampleUtxos ''kaspatest:qq0'' newUtxoSet) = [''tx10'', ''tx20'']"
    by (simp add: exampleUtxos_def add_def addOne_def newUnspentOutput_def utxoIdOf_def toString_0
      newUtxoSet_def obj_get_def strict_neq_def Let_def)
  ultimately show ?thesis using utxoSetInvariant_new by (simp add: exampleSet_eq)
qed

text \<open>
  The in-use list has no effect on \<open>add\<close>: the second conjunct of its guard holds
  for every key, so an output is inserted whenever its key is not known.
\<close>

lemma addOne_ignores_inUse: "addOne iu a acc x = addOne iu' a acc x"
  by (simp add: addOne_def strict_neq_def)

lemma add_ignores_inUse:
  "fst (add xs a (s\<lparr>inUse := iu\<rparr>)) = fst (add xs a s)
   \<and> utxos (snd (add xs a (s\<lparr>inUse := iu\<rparr>))) = utxos (snd (add xs a s))"
proof -
  have "addOne iu a = addOne (inUse s) a"
    by (intro ext) (rule addOne_ignores_inUse)
  then show ?thesis by (simp add: add_def Let_def)
qed

text \<open>
  C7. \<open>add\<close> does not skip an output whose key is in use: the guard compares the
  number that \<open>indexOf\<close> returns with the key, a string, and never fails. In the set
  that knows no output and has the key of the first example output in use, at position 0
  of the in-use list, adding the two example outputs inserts both and returns both keys,
  the one in use among them, and the key stays in use.
\<close>

theorem add_inserts_in_use_outpoint:
  "utxos inUseOnly = []
   \<and> inUse inUseOnly = [''tx10'']
   \<and> indexOf (inUse inUseOnly) ''tx10'' = 0
   \<and> fst (add exampleUtxos ''kaspatest:qq0'' inUseOnly) = [''tx10'', ''tx20'']
   \<and> obj_keys (utxos (snd (add exampleUtxos ''kaspatest:qq0'' inUseOnly))) = [''tx10'', ''tx20'']
   \<and> inUse (snd (add exampleUtxos ''kaspatest:qq0'' inUseOnly)) = [''tx10'']"
  by (simp add: inUseOnly_def exampleUtxos_def add_def addOne_def newUnspentOutput_def utxoIdOf_def
      toString_0 newUtxoSet_def obj_get_def obj_keys_def strict_neq_def updateUtxoBalance_def
      Let_def)

lemma reservedExample_eq:
  "reservedExample =
     \<lparr>utxos = [(''tx10'', \<lparr>txid = ''tx1'', address = ''kaspatest:qq0'', vout = 0, script = ''76a9'', satoshis = 500\<rparr>),
               (''tx20'', \<lparr>txid = ''tx2'', address = ''kaspatest:qq0'', vout = 0, script = ''76a9'', satoshis = 700\<rparr>)],
      inUse = [''tx10''], availableBalance = 0, utxoBalance = Some 1200\<rparr>"
  by (simp add: reservedExample_def reserve_def exampleSet_eq)

text \<open>
  C3. The field \<open>availableBalance\<close> is not what \<open>updateUtxoBalance\<close> writes: after
  adding outputs worth 1200 to the empty set the field is still 0 while the outputs not
  in use sum to 1200, and after reserving the first output it is 0 while they sum to 700.
  The property that is written, \<open>balance\<close>, is not reset by \<open>clear\<close>: it stays 1200
  when nothing is known any more.
\<close>

theorem availableBalance_never_recomputed:
  "availableBalance (snd (add exampleUtxos ''kaspatest:qq0'' newUtxoSet)) = 0
   \<and> availableSum (snd (add exampleUtxos ''kaspatest:qq0'' newUtxoSet)) = 1200
   \<and> utxoBalance (snd (add exampleUtxos ''kaspatest:qq0'' newUtxoSet)) = Some 1200
   \<and> availableBalance (updateUtxoBalance reservedExample) = 0
   \<and> availableSum (updateUtxoBalance reservedExample) = 700
   \<and> utxoBalance (clear exampleSet) = Some 1200
   \<and> availableSum (clear exampleSet) = 0"
  by (simp add: exampleSet_def [symmetric] exampleSet_eq reservedExample_eq updateUtxoBalance_def
      clear_def availableSum_def availableEntries_def valueSum_def)

lemma enable_filter: "enable ids s = s\<lparr>inUse := filter (\<lambda>utxoId. utxoId \<notin> set ids) (inUse s)\<rparr>"
  by (simp add: enable_def indexOf_absent)

text \<open>
  C8, amended. For ids none of which is in use, reserving them and then releasing them
  with \<open>enable\<close> gives back the same set: the same in-use list, the same sum of
  outputs not in use, and the same recomputed balance.
\<close>

theorem reserve_enable_roundtrip:
  assumes "set ids \<inter> set (inUse s) = {}"
  shows "enable ids (reserve ids s) = s
         \<and> inUse (enable ids (reserve ids s)) = inUse s
         \<and> availableSum (enable ids (reserve ids s)) = availableSum s
         \<and> updateUtxoBalance (enable ids (reserve ids s)) = updateUtxoBalance s"
proof -
  have "filter (\<lambda>utxoId. utxoId \<notin> set ids) (inUse s) = inUse s"
    using assms by (intro filter_True) auto
  then have "enable ids (reserve ids s) = s"
    by (simp add: enable_filter reserve_def)
  then show ?thesis by simp
qed

text \<open>Reserving and releasing the first example output, which is not in use.\<close>

theorem reserve_enable_roundtrip_witness:
  "set [''tx10''] \<inter> set (inUse exampleSet) = {}
   \<and> enable [''tx10''] (reserve [''tx10''] exampleSet) = exampleSet
   \<and> inUse (reserve [''tx10''] exampleSet) = [''tx10'']"
  using reserve_enable_roundtrip [of "[''tx10'']" exampleSet]
  by (simp add: exampleSet_eq reserve_def)

text \<open>
  C8 as stated fails for an id that is already in use: the reservation appends it once
  more, the release removes every occurrence, and the output that was reserved before
  the pair of calls is available after it.
\<close>

theorem reserve_enable_counterexample:
  "inUse reservedExample = [''tx10'']
   \<and> inUse (enable [''tx10''] (reserve [''tx10''] reservedExample)) = []
   \<and> availableSum reservedExample = 700
   \<and> availableSum (enable [''tx10''] (reserve [''tx10''] reservedExample)) = 1200"
  by (simp add: reservedExample_eq enable_filter reserve_def availableSum_def
      availableEntries_def valueSum_def)

section \<open>Properties of the Wallet\<close>

lemma exampleWallet_eq:
  "exampleWallet =
     \<lparr>balance = Some 1200, receiveAddress = ''kaspatest:qq0'', utxoSet = exampleSet,
      addressManager = \<lparr>receiveCounter = 1, changeCounter = 0\<rparr>,
      pending = [], transactionsStorage = []\<rparr>"
  by (simp add: exampleWallet_def updateUtxos_def newWallet_def exampleEnv_def historyEnv_def nextAddress_def
      toString_0 exampleSet_def [symmetric] exampleSet_eq updateBalance_def totalBalance_def
      valueSum_def pendingAmount_def obj_values_def Let_def)

lemma pendingAmount_total: "pendingAmount txs = pendingTotal txs"
  by (simp add: pendingAmount_def pendingTotal_def obj_values_def foldl_plus_sum Let_def comp_def)

lemma obj_get_set: "obj_get (obj_set k v obj) = (obj_get obj)(k \<mapsto> v)"
  by (induction obj) (auto simp: obj_get_def)

lemma obj_keys_set:
  "obj_keys (obj_set k v obj) = (if k \<in> set (obj_keys obj) then obj_keys obj else obj_keys obj @ [k])"
  unfolding obj_keys_def by (induction obj) (force+)

lemma obj_delete_fresh: "k \<notin> set (obj_keys obj) \<Longrightarrow> obj_delete k obj = obj"
  by (induction obj) (auto simp: obj_keys_def)

lemma obj_delete_append: "obj_delete k (xs @ ys) = obj_delete k xs @ obj_delete k ys"
  by (induction xs) auto

lemma obj_delete_set_fresh: "k \<notin> set (obj_keys obj) \<Longrightarrow> obj_delete k (obj_set k v obj) = obj"
  by (simp add: obj_set_fresh obj_delete_append obj_delete_fresh)

text \<open>
  C9, amended. \<open>pending.add\<close> never fails: it is an assignment to the property. Under
  an id that is tracked it replaces the entry in place; under a fresh id it appends the
  entry. Every other entry is kept.
\<close>

theorem pendingAdd_replaces:
  "obj_get (pendingAdd txId tx txs) = (obj_get txs)(txId \<mapsto> tx)
   \<and> obj_keys (pendingAdd txId tx txs) =
       (if txId \<in> set (obj_keys txs) then obj_keys txs else obj_keys txs @ [txId])"
  by (simp add: pendingAdd_def obj_get_set obj_keys_set)

text \<open>Recording the example entry in an empty ledger inserts it.\<close>

theorem pendingAdd_replaces_witness:
  "obj_get (pendingAdd ''d7801740'' examplePending []) ''d7801740'' = Some examplePending
   \<and> obj_keys (pendingAdd ''d7801740'' examplePending []) = [''d7801740'']"
  using pendingAdd_replaces [of "''d7801740''" examplePending "[]"]
  by (simp add: obj_keys_def)

text \<open>
  C9 as stated fails: recording a second, different entry under a tracked id raises
  nothing and replaces the first entry.
\<close>

theorem pendingAdd_duplicate_counterexample:
  "obj_get (pendingAdd ''d7801740'' (examplePending\<lparr>amount := 99\<rparr>)
              (pendingAdd ''d7801740'' examplePending [])) ''d7801740''
     = Some (examplePending\<lparr>amount := 99\<rparr>)
   \<and> examplePending\<lparr>amount := 99\<rparr> \<noteq> examplePending
   \<and> obj_keys (pendingAdd ''d7801740'' (examplePending\<lparr>amount := 99\<rparr>)
                 (pendingAdd ''d7801740'' examplePending [])) = [''d7801740'']"
  by (simp add: pendingAdd_def obj_get_def obj_keys_def examplePending_def)

lemma selectUtxos_Inr_disjoint:
  assumes "selectUtxos s t = Inr (ids, us)"
  shows "set ids \<inter> set (inUse s) = {}"
proof -
  let ?av = "filter (\<lambda>e. fst e \<notin> set (inUse s)) (utxos s)"
  from selectLoop_prefix [of "inUse s" t "utxos s" "[]" "[]" 0] obtain k where
    "selectLoop (inUse s) t (utxos s) ([], [], 0) =
       (map fst (take k ?av), map snd (take k ?av), valueSum (take k ?av))"
    by auto
  with assms have "ids = map fst (take k ?av)"
    by (simp add: selectUtxos_def split: if_splits)
  then have "set ids \<subseteq> fst ` set ?av"
    using set_take_subset [of k ?av] by auto
  then show ?thesis by auto
qed

lemma totalBalance_updateUtxoBalance [simp]:
  "totalBalance (updateUtxoBalance s) = totalBalance s"
  by (simp add: totalBalance_def)

lemma totalBalance_reserve [simp]: "totalBalance (reserve ids s) = totalBalance s"
  by (simp add: totalBalance_def reserve_def)

lemma totalBalance_release [simp]: "totalBalance (release ids s) = totalBalance s"
  by (simp add: totalBalance_def release_def)

text \<open>What a successful \<open>composeTx\<close> leaves.\<close>

lemma composeTx_Inr:
  assumes "composeTx env toAddr amt feeOpt ov w = (Inr (txId, tx), w')"
  shows "\<exists>ids us raw.
           selectUtxos (utxoSet w) (amt + feeOf env feeOpt) = Inr (ids, us)
         \<and> tx = \<lparr>utxoIds = ids, rawTx = raw, amount = amt + feeOf env feeOpt\<rparr>
         \<and> utxoSet w' = updateUtxoBalance (reserve ids (utxoSet w))
         \<and> pending w' = pendingAdd txId tx (pending w)
         \<and> balance w' = Some (totalBalance (utxoSet w) - pendingAmount (pendingAdd txId tx (pending w)))
         \<and> transactionsStorage w' = transactionsStorage w"
proof (cases "selectUtxos (utxoSet w) (amt + feeOf env feeOpt)")
  case (Inl e)
  with assms show ?thesis
    by (simp add: composeTx_def Let_def split: if_splits)
next
  case (Inr p)
  obtain ids us where p: "p = (ids, us)" by (cases p)
  let ?c = "case ov of None \<Rightarrow> nextAddress env Change (addressManager w)
            | Some a \<Rightarrow> if a = [] then nextAddress env Change (addressManager w)
                        else (a, addressManager w)"
  show ?thesis
  proof (cases "signTx env us toAddr amt (feeOf env feeOpt) (fst ?c)")
    case (Inl e)
    with assms Inr p show ?thesis
      by (simp add: composeTx_def Let_def split: if_splits)
  next
    case sg: (Inr q)
    obtain i raw where q: "q = (i, raw)" by (cases q)
    from assms Inr p sg q have safe: "isSafeInteger amt"
      by (simp add: composeTx_def Let_def split: if_splits)
    from assms Inr p sg q safe show ?thesis
      by (simp add: composeTx_def Let_def updateBalance_def) auto
  qed
qed

lemma toString_1: "toString 1 = ''1''"
  by (simp add: toString.simps)

lemma toString_Suc_0: "toString (Suc 0) = ''1''"
  by (simp add: toString.simps)

lemma composeTx_example:
  "composeTx exampleEnv ''kaspatest:qr9'' 600 (Some 10) None exampleWallet =
     (Inr (''d7801740'', examplePending), composedExample)"
  by (simp add: composeTx_def feeOf_def isSafeInteger_def exampleWallet_eq exampleSet_eq
      selectUtxos_def exampleEnv_def historyEnv_def nextAddress_def toString_0 toString_1 toString_Suc_0 reserve_def
      pendingAdd_def updateUtxoBalance_def updateBalance_def totalBalance_def valueSum_def
      pendingAmount_def obj_values_def obj_keys_def examplePending_def composedExample_def Let_def)

lemma pendingTotal_set_fresh:
  "k \<notin> set (obj_keys txs) \<Longrightarrow> pendingTotal (obj_set k tx txs) = pendingTotal txs + amount tx"
  by (simp add: obj_set_fresh pendingTotal_def)

text \<open>
  C10. When \<open>composeTx\<close> succeeds with an id that is not yet tracked, the amount of the
  returned value, which is the entry recorded under the id, is the amount plus the fee,
  the pending total grows by that sum, and the balance recomputed at the end of the call
  is the balance recomputed from the state before the call minus that sum.
\<close>

theorem composeTx_debits_amount_and_fee:
  assumes "composeTx env toAddr amt feeOpt ov w = (Inr (txId, tx), w')"
      and "txId \<notin> set (obj_keys (pending w))"
  shows "amount tx = amt + feeOf env feeOpt
         \<and> obj_get (pending w') txId = Some tx
         \<and> pendingTotal (pending w') = pendingTotal (pending w) + (amt + feeOf env feeOpt)
         \<and> balance (updateBalance w) = Some (valueSum (utxos (utxoSet w)) - pendingTotal (pending w))
         \<and> balance w' =
             Some (valueSum (utxos (utxoSet w)) - pendingTotal (pending w) - (amt + feeOf env feeOpt))"
proof -
  from composeTx_Inr [OF assms(1)] obtain ids us raw where
    tx: "tx = \<lparr>utxoIds = ids, rawTx = raw, amount = amt + feeOf env feeOpt\<rparr>"
    and pe: "pending w' = pendingAdd txId tx (pending w)"
    and ba: "balance w' = Some (totalBalance (utxoSet w) - pendingAmount (pendingAdd txId tx (pending w)))"
    by blast
  have am: "amount tx = amt + feeOf env feeOpt" by (simp add: tx)
  have get: "obj_get (pending w') txId = Some tx" by (simp add: pe pendingAdd_def obj_get_set)
  have tot: "pendingTotal (pending w') = pendingTotal (pending w) + (amt + feeOf env feeOpt)"
    using assms(2) by (simp add: pe pendingAdd_def pendingTotal_set_fresh am)
  have before: "balance (updateBalance w) = Some (valueSum (utxos (utxoSet w)) - pendingTotal (pending w))"
    by (simp add: updateBalance_def totalBalance_def pendingAmount_total)
  have after: "balance w' =
      Some (valueSum (utxos (utxoSet w)) - pendingTotal (pending w) - (amt + feeOf env feeOpt))"
    using tot by (simp add: ba pe [symmetric] totalBalance_def pendingAmount_total)
  from am get tot before after show ?thesis by blast
qed

text \<open>
  Composing 600 with a fee of 10 on the example wallet: the entry holds 610 and the
  balance goes from 1200 to 590.
\<close>

theorem composeTx_debits_amount_and_fee_witness:
  "composeTx exampleEnv ''kaspatest:qr9'' 600 (Some 10) None exampleWallet =
     (Inr (''d7801740'', examplePending), composedExample)
   \<and> ''d7801740'' \<notin> set (obj_keys (pending exampleWallet))
   \<and> amount examplePending = 610
   \<and> balance exampleWallet = Some 1200
   \<and> balance composedExample = Some 590"
proof -
  have fresh: "''d7801740'' \<notin> set (obj_keys (pending exampleWallet))"
    by (simp add: exampleWallet_eq obj_keys_def)
  from composeTx_debits_amount_and_fee [OF composeTx_example fresh]
  have "amount examplePending = 600 + feeOf exampleEnv (Some 10)" by blast
  then have "amount examplePending = 610" by (simp add: feeOf_def)
  with composeTx_example fresh show ?thesis
    by (simp add: exampleWallet_eq composedExample_def)
qed

text \<open>
  The release of the specification is what the method \<open>enable\<close> of the source does.
\<close>

lemma release_enable: "release ids s = enable ids s"
  by (simp add: release_def enable_filter)

lemma release_reserve:
  assumes "set ids \<inter> set (inUse u) = {}"
  shows "updateUtxoBalance (release ids (updateUtxoBalance (reserve ids u))) = updateUtxoBalance u"
proof -
  have "filter (\<lambda>utxoId. utxoId \<notin> set ids) (inUse u) = inUse u"
    using assms by (intro filter_True) auto
  then show ?thesis
    by (simp add: updateUtxoBalance_def release_def reserve_def Let_def)
qed

lemma deleteTx_tracked:
  assumes "obj_get (pending w) txId = Some tx"
  shows "deleteTx txId w =
           (Inr (), updateBalance (w\<lparr>pending := obj_delete txId (pending w),
                                     utxoSet := updateUtxoBalance (release (utxoIds tx) (utxoSet w))\<rparr>))"
  using assms by (simp add: deleteTx_def Let_def)

text \<open>
  C1. When \<open>composeTx\<close> succeeds with an id that is not yet tracked and the broadcast
  fails, \<open>sendTx\<close> raises the broadcast error itself and leaves the known outputs and
  the in-use list of before the call, the pending transactions of before the call, and
  the balances recomputed from them: the UtxoSet is the one of before with its balance
  recomputed, and the wallet balance is the one recomputed from the state of before. For
  a wallet whose balances were up to date, the UtxoSet, the pending transactions and the
  balance are exactly those of before.
\<close>

theorem sendTx_rollback:
  assumes "composeTx env toAddr amt feeOpt None w = (Inr (txId, tx), w1)"
      and "postTx env (rawTx tx) = Some e"
      and "txId \<notin> set (obj_keys (pending w))"
  shows "\<exists>w2. sendTx env toAddr amt feeOpt w = (Inl e, w2)
           \<and> utxos (utxoSet w2) = utxos (utxoSet w)
           \<and> inUse (utxoSet w2) = inUse (utxoSet w)
           \<and> utxoSet w2 = updateUtxoBalance (utxoSet w)
           \<and> pending w2 = pending w
           \<and> balance w2 = balance (updateBalance w)
           \<and> (utxoSet w = updateUtxoBalance (utxoSet w) \<longrightarrow> utxoSet w2 = utxoSet w)
           \<and> (balance w = balance (updateBalance w) \<longrightarrow> balance w2 = balance w)"
proof -
  from composeTx_Inr [OF assms(1)] obtain ids us raw where
    sel: "selectUtxos (utxoSet w) (amt + feeOf env feeOpt) = Inr (ids, us)"
    and tx: "tx = \<lparr>utxoIds = ids, rawTx = raw, amount = amt + feeOf env feeOpt\<rparr>"
    and us: "utxoSet w1 = updateUtxoBalance (reserve ids (utxoSet w))"
    and pe: "pending w1 = pendingAdd txId tx (pending w)"
    by blast
  have disj: "set ids \<inter> set (inUse (utxoSet w)) = {}"
    using sel by (rule selectUtxos_Inr_disjoint)
  have tracked: "obj_get (pending w1) txId = Some tx"
    by (simp add: pe pendingAdd_def obj_get_set)
  let ?w2 = "updateBalance (w1\<lparr>pending := obj_delete txId (pending w1),
                               utxoSet := updateUtxoBalance (release (utxoIds tx) (utxoSet w1))\<rparr>)"
  have del: "deleteTx txId w1 = (Inr (), ?w2)"
    using tracked by (rule deleteTx_tracked)
  have send: "sendTx env toAddr amt feeOpt w = (Inl e, ?w2)"
    by (simp add: sendTx_def assms(1,2) del)
  have pend: "pending ?w2 = pending w"
    using assms(3) by (simp add: updateBalance_def pe pendingAdd_def obj_delete_set_fresh)
  have uset: "utxoSet ?w2 = updateUtxoBalance (utxoSet w)"
    using release_reserve [OF disj] by (simp add: updateBalance_def us tx)
  have bal: "balance ?w2 = balance (updateBalance w)"
    using assms(3)
    by (simp add: updateBalance_def us tx pe pendingAdd_def obj_delete_set_fresh)
  from send pend uset bal show ?thesis
    by (intro exI [of _ ?w2]) simp
qed

text \<open>
  Sending 600 with a fee of 10 from the example wallet through a broadcast that fails:
  the error is the broadcast error, and the set, the pending transactions and the
  balance of 1200 are those of before.
\<close>

theorem sendTx_rollback_witness:
  "composeTx exampleEnv ''kaspatest:qr9'' 600 (Some 10) None exampleWallet =
     (Inr (''d7801740'', examplePending), composedExample)
   \<and> postTx exampleEnv (rawTx examplePending) = Some (NetworkError ''FetchError'')
   \<and> ''d7801740'' \<notin> set (obj_keys (pending exampleWallet))
   \<and> fst (sendTx exampleEnv ''kaspatest:qr9'' 600 (Some 10) exampleWallet) =
       Inl (NetworkError ''FetchError'')
   \<and> utxoSet (snd (sendTx exampleEnv ''kaspatest:qr9'' 600 (Some 10) exampleWallet)) = exampleSet
   \<and> pending (snd (sendTx exampleEnv ''kaspatest:qr9'' 600 (Some 10) exampleWallet)) = []
   \<and> balance (snd (sendTx exampleEnv ''kaspatest:qr9'' 600 (Some 10) exampleWallet)) = Some 1200"
proof -
  have post: "postTx exampleEnv (rawTx examplePending) = Some (NetworkError ''FetchError'')"
    by (simp add: exampleEnv_def historyEnv_def)
  have fresh: "''d7801740'' \<notin> set (obj_keys (pending exampleWallet))"
    by (simp add: exampleWallet_eq obj_keys_def)
  have settled: "updateUtxoBalance exampleSet = exampleSet"
    by (simp add: exampleSet_eq updateUtxoBalance_def obj_keys_def obj_get_def)
  have bal: "balance (updateBalance exampleWallet) = Some 1200"
    by (simp add: updateBalance_def exampleWallet_eq exampleSet_eq totalBalance_def valueSum_def
        pendingAmount_def obj_values_def)
  from sendTx_rollback [OF composeTx_example post fresh] obtain w2 where
    "sendTx exampleEnv ''kaspatest:qr9'' 600 (Some 10) exampleWallet =
       (Inl (NetworkError ''FetchError''), w2)"
    "utxoSet w2 = updateUtxoBalance (utxoSet exampleWallet)"
    "pending w2 = pending exampleWallet"
    "balance w2 = balance (updateBalance exampleWallet)"
    by blast
  with composeTx_example post fresh settled bal show ?thesis
    by (simp add: exampleWallet_eq)
qed

lemma balance_updateBalance:
  "balance (updateBalance w) = Some (valueSum (utxos (utxoSet w)) - pendingTotal (pending w))"
  by (simp add: updateBalance_def totalBalance_def pendingAmount_total)

lemma updateBalance_fields [simp]:
  "utxoSet (updateBalance w) = utxoSet w"
  "pending (updateBalance w) = pending w"
  "addressManager (updateBalance w) = addressManager w"
  by (simp_all add: updateBalance_def)

lemma deleteTx_Inr:
  assumes "deleteTx txId w = (Inr u, w')"
  shows "\<exists>tx. obj_get (pending w) txId = Some tx
           \<and> w' = updateBalance (w\<lparr>pending := obj_delete txId (pending w),
                                     utxoSet := updateUtxoBalance (release (utxoIds tx) (utxoSet w))\<rparr>)"
proof (cases "obj_get (pending w) txId")
  case None
  with assms show ?thesis by (simp add: deleteTx_def)
next
  case (Some tx)
  with assms deleteTx_tracked [OF Some] show ?thesis by simp
qed

text \<open>
  C2. After \<open>updateBalance\<close>, and after \<open>updateUtxos\<close>, a successful \<open>composeTx\<close> and
  a successful \<open>deleteTx\<close>, which end with it, the balance of the wallet is the sum of
  the values of all known outputs minus the sum of the amounts of the pending
  transactions, both taken in the resulting state.
\<close>

theorem balance_known_minus_pending:
  "balance (updateBalance w) = Some (valueSum (utxos (utxoSet w)) - pendingTotal (pending w))
   \<and> balance (updateUtxos env addresses w) =
       Some (valueSum (utxos (utxoSet (updateUtxos env addresses w)))
             - pendingTotal (pending (updateUtxos env addresses w)))
   \<and> (\<forall>txId tx w'. composeTx env toAddr amt feeOpt ov w = (Inr (txId, tx), w') \<longrightarrow>
         balance w' = Some (valueSum (utxos (utxoSet w')) - pendingTotal (pending w')))
   \<and> (\<forall>w'. deleteTx delId w = (Inr (), w') \<longrightarrow>
         balance w' = Some (valueSum (utxos (utxoSet w')) - pendingTotal (pending w')))"
proof -
  have a: "balance (updateBalance w) = Some (valueSum (utxos (utxoSet w)) - pendingTotal (pending w))"
    by (rule balance_updateBalance)
  have b: "balance (updateUtxos env addresses w) =
       Some (valueSum (utxos (utxoSet (updateUtxos env addresses w)))
             - pendingTotal (pending (updateUtxos env addresses w)))"
    unfolding updateUtxos_def by (simp add: balance_updateBalance)
  have c: "balance w' = Some (valueSum (utxos (utxoSet w')) - pendingTotal (pending w'))"
    if "composeTx env toAddr amt feeOpt ov w = (Inr (txId, tx), w')" for txId tx w'
  proof -
    from composeTx_Inr [OF that] obtain ids where
      "utxoSet w' = updateUtxoBalance (reserve ids (utxoSet w))"
      "pending w' = pendingAdd txId tx (pending w)"
      "balance w' = Some (totalBalance (utxoSet w) - pendingAmount (pendingAdd txId tx (pending w)))"
      by blast
    then show ?thesis
      by (simp add: totalBalance_def pendingAmount_total reserve_def)
  qed
  have d: "balance w' = Some (valueSum (utxos (utxoSet w')) - pendingTotal (pending w'))"
    if "deleteTx delId w = (Inr (), w')" for w'
  proof -
    from deleteTx_Inr [OF that] obtain tx where
      "obj_get (pending w) delId = Some tx
       \<and> w' = updateBalance (w\<lparr>pending := obj_delete delId (pending w),
                             utxoSet := updateUtxoBalance (release (utxoIds tx) (utxoSet w))\<rparr>)" ..
    then have "w' = updateBalance (w\<lparr>pending := obj_delete delId (pending w),
                             utxoSet := updateUtxoBalance (release (utxoIds tx) (utxoSet w))\<rparr>)" ..
    then show ?thesis by (simp add: balance_updateBalance)
  qed
  from a b c d show ?thesis by blast
qed

lemma deleteTx_example:
  "deleteTx ''d7801740'' composedExample =
     (Inr (), composedExample\<lparr>balance := Some 1200, pending := [],
                utxoSet := exampleSet\<rparr>)"
  by (simp add: deleteTx_def composedExample_def obj_get_def examplePending_def release_def
      updateUtxoBalance_def updateBalance_def totalBalance_def valueSum_def pendingAmount_def
      obj_values_def obj_keys_def exampleSet_eq Let_def)

text \<open>
  On the example wallet: 1200 with nothing pending, 590 after composing 600 with a fee
  of 10, and 1200 again after deleting that transaction.
\<close>

theorem balance_known_minus_pending_witness:
  "balance (updateBalance exampleWallet) = Some 1200
   \<and> composeTx exampleEnv ''kaspatest:qr9'' 600 (Some 10) None exampleWallet =
       (Inr (''d7801740'', examplePending), composedExample)
   \<and> balance composedExample = Some 590
   \<and> valueSum (utxos (utxoSet composedExample)) = 1200
   \<and> pendingTotal (pending composedExample) = 610
   \<and> fst (deleteTx ''d7801740'' composedExample) = Inr ()
   \<and> balance (snd (deleteTx ''d7801740'' composedExample)) = Some 1200
   \<and> pendingTotal (pending (snd (deleteTx ''d7801740'' composedExample))) = 0"
proof -
  note t = balance_known_minus_pending
    [of exampleWallet exampleEnv "[]" "''kaspatest:qr9''" 600 "Some 10" None "''d7801740''"]
  from t have "balance (updateBalance exampleWallet) =
      Some (valueSum (utxos (utxoSet exampleWallet)) - pendingTotal (pending exampleWallet))"
    by blast
  then have a: "balance (updateBalance exampleWallet) = Some 1200"
    by (simp add: exampleWallet_eq exampleSet_eq valueSum_def pendingTotal_def)
  from t composeTx_example have "balance composedExample =
      Some (valueSum (utxos (utxoSet composedExample)) - pendingTotal (pending composedExample))"
    by blast
  moreover have "valueSum (utxos (utxoSet composedExample)) = 1200"
    "pendingTotal (pending composedExample) = 610"
    by (simp_all add: composedExample_def exampleSet_eq valueSum_def pendingTotal_def
        examplePending_def)
  ultimately show ?thesis using a composeTx_example
    by (simp add: deleteTx_example pendingTotal_def)
qed

section \<open>Address discovery\<close>

lemma addTransactions_foldl:
  "fst (foldl (\<lambda>acc addr.
              let transactions = getTransactions env addr
              in if length transactions \<noteq> 0
                 then (fst acc @ [addr],
                       (snd acc)\<lparr>transactionsStorage :=
                                   obj_set addr transactions (transactionsStorage (snd acc))\<rparr>)
                 else acc) (ads, w) addresses) =
   ads @ filter (\<lambda>a. getTransactions env a \<noteq> []) addresses"
  by (induction addresses arbitrary: ads w) (simp_all add: Let_def)

lemma addTransactions_fst:
  "fst (addTransactions env addresses w) = filter (\<lambda>a. getTransactions env a \<noteq> []) addresses"
  using addTransactions_foldl [of env "[]" w addresses] by (simp add: addTransactions_def)

lemma addTransactions_foldl_am:
  "addressManager (snd (foldl (\<lambda>acc addr.
              let transactions = getTransactions env addr
              in if length transactions \<noteq> 0
                 then (fst acc @ [addr],
                       (snd acc)\<lparr>transactionsStorage :=
                                   obj_set addr transactions (transactionsStorage (snd acc))\<rparr>)
                 else acc) (ads, w) addresses)) = addressManager w"
  by (induction addresses arbitrary: ads w) (simp_all add: Let_def)

lemma addTransactions_addressManager:
  "addressManager (snd (addTransactions env addresses w)) = addressManager w"
  using addTransactions_foldl_am [of env "[]" w addresses] by (simp add: addTransactions_def)

lemma active_fun: "active env t = (\<lambda>i. getTransactions env (deriveAddress env t i) \<noteq> [])"
  by (simp add: fun_eq_iff active_def)

lemma batch_with_tx:
  "fst (addTransactions env (map objAddress (getAddresses env n t offset)) w) =
     map (deriveAddress env t) (activeIndices env t n offset)"
  by (simp add: addTransactions_fst getAddresses_def activeIndices_def filter_map comp_def active_fun)

lemma batch_filter:
  "filter (\<lambda>obj. indexOf (map (deriveAddress env t) (activeIndices env t n offset)) (objAddress obj) \<noteq> -1)
     (getAddresses env n t offset) =
   map (\<lambda>i. \<lparr>objIndex = i, objAddress = deriveAddress env t i\<rparr>) (activeIndices env t n offset)"
proof -
  have "filter (\<lambda>i. deriveAddress env t i \<in> deriveAddress env t ` set (activeIndices env t n offset))
          [offset ..< offset + n] = filter (active env t) [offset ..< offset + n]"
    by (rule filter_cong) (auto simp: activeIndices_def active_def)
  then show ?thesis
    by (simp add: getAddresses_def indexOf_absent filter_map comp_def activeIndices_def)
qed

lemma foldl_max: "foldl (\<lambda>prev cur. max prev (f cur)) a xs = Max (set (a # map f xs))"
  for a :: nat
proof -
  have "(\<lambda>x s. max s (f x)) = max \<circ> f"
    by (simp add: fun_eq_iff max.commute)
  then have "foldl (\<lambda>prev cur. max prev (f cur)) a xs = fold max (map f xs) a"
    by (simp add: foldl_conv_fold fold_map)
  then show ?thesis by (simp only: Max.set_eq_fold)
qed

lemma batch_addresses:
  "map objAddress (getAddresses env n t offset) = map (deriveAddress env t) [offset ..< offset + n]"
  by (simp add: getAddresses_def comp_def)

lemma newN_Max:
  assumes "activeIndices env t n offset \<noteq> []"
  shows "foldl (\<lambda>prev cur. max prev (objIndex cur)) 0
           (map (\<lambda>i. \<lparr>objIndex = i, objAddress = deriveAddress env t i\<rparr>)
              (activeIndices env t n offset)) =
         Max (set (activeIndices env t n offset))"
proof -
  let ?ai = "activeIndices env t n offset"
  have "Max (insert 0 (set ?ai)) = Max (set ?ai)"
    using assms by (simp add: Max_insert)
  then show ?thesis by (simp add: foldl_max comp_def)
qed

text \<open>
  One call of \<open>doDiscovery\<close>, in terms of the active indices of its batch.
\<close>

lemma doDiscovery_unfold:
  "doDiscovery env threshold t n offset w =
     (if activeIndices env t n offset = []
      then Some (int offset - (int threshold - int n) - 1,
                 snd (addTransactions env (map (deriveAddress env t) [offset ..< offset + n]) w))
      else doDiscovery env threshold t (Suc (Max (set (activeIndices env t n offset)))) (offset + n)
             (snd (addTransactions env (map (deriveAddress env t) [offset ..< offset + n]) w)))"
proof (cases "activeIndices env t n offset = []")
  case True
  then show ?thesis
    by (subst doDiscovery.simps) (simp add: Let_def batch_with_tx batch_addresses [symmetric])
next
  case False
  then show ?thesis
    by (subst doDiscovery.simps)
       (simp add: Let_def batch_with_tx batch_filter newN_Max batch_addresses [symmetric])
qed


lemma activeIndices_set:
  "set (activeIndices env t n offset) = {i. offset \<le> i \<and> i < offset + n \<and> active env t i}"
  by (auto simp: activeIndices_def)

text \<open>
  \<open>doDiscovery\<close> returns when the active indices are bounded: a batch with activity
  is not empty, so the offset grows until it passes the bound.
\<close>

lemma doDiscovery_returns:
  assumes "\<forall>i\<ge>B. \<not> active env t i"
  shows "doDiscovery env threshold t n offset w \<noteq> None"
proof (induction "B - offset" arbitrary: n offset w rule: less_induct)
  case less
  show ?case
  proof (cases "activeIndices env t n offset = []")
    case True
    then show ?thesis by (subst doDiscovery_unfold) simp
  next
    case False
    then obtain i where "i \<in> set (activeIndices env t n offset)"
      by (cases "activeIndices env t n offset") auto
    then have i: "offset \<le> i" "i < offset + n" "active env t i"
      by (simp_all add: activeIndices_set)
    with assms have "i < B" by (meson not_le)
    with i have "B - (offset + n) < B - offset" by simp
    from less [OF this] False show ?thesis
      by (subst doDiscovery_unfold) simp
  qed
qed

lemma doDiscovery_addressManager:
  assumes "doDiscovery env threshold t n offset w = Some y"
  shows "addressManager (snd y) = addressManager w"
proof (rule doDiscovery.raw_induct
    [where P = "\<lambda>env threshold t n offset w y. addressManager (snd y) = addressManager w",
     OF _ assms])
  fix f :: "Env \<Rightarrow> nat \<Rightarrow> deriveType \<Rightarrow> nat \<Rightarrow> nat \<Rightarrow> Wallet \<Rightarrow> (int \<times> Wallet) option"
  fix env threshold t n offset w y
  assume IH: "\<And>env threshold t n offset w y.
      f env threshold t n offset w = Some y \<Longrightarrow> addressManager (snd y) = addressManager w"
  assume body: "(let derivedObjs = getAddresses env n t offset;
          addresses = map objAddress derivedObjs;
          r = addTransactions env addresses w; addressesWithTx = fst r
      in if length addressesWithTx = 0
         then Some (int offset - (int threshold - int n) - 1, snd r)
         else let newN =
                    foldl (\<lambda>prev cur. max prev (objIndex cur)) 0
                     (filter (\<lambda>obj. indexOf addressesWithTx (objAddress obj) \<noteq> - 1)
                       derivedObjs) + 1
              in f env threshold t newN (offset + n) (snd r)) = Some y"
  let ?r = "addTransactions env (map objAddress (getAddresses env n t offset)) w"
  show "addressManager (snd y) = addressManager w"
  proof (cases "length (fst ?r) = 0")
    case True
    with body have "y = (int offset - (int threshold - int n) - 1, snd ?r)"
      by (simp add: Let_def)
    then show ?thesis by (simp add: addTransactions_addressManager)
  next
    case False
    with body obtain newN where
      "f env threshold t newN (offset + n) (snd ?r) = Some y"
      by (simp add: Let_def)
    from IH [OF this] show ?thesis by (simp add: addTransactions_addressManager)
  qed
qed

lemma toString_digits:
  "toString 2 = ''2''" "toString 5 = ''5''" "toString 4 = ''4''"
  by (simp_all add: toString.simps)

lemma toString_40: "toString 40 = ''40''"
  by (simp add: toString.simps)

lemma toString_20: "toString 20 = ''20''"
  by (simp add: toString.simps)

lemma active_history:
  "active (historyEnv idxs) Receive i \<longleftrightarrow> toString i \<in> toString ` set idxs"
  by (auto simp: active_def historyEnv_def)

lemma active_history_change: "\<not> active (historyEnv idxs) Change i"
  by (auto simp: active_def historyEnv_def)

lemma act_change: "activeIndices (historyEnv idxs) Change n offset = []"
  by (simp add: activeIndices_def active_history_change)

lemma act_receive: "activeIndices exampleEnv Receive 20 0 = [0, 2, 5]"
  by (simp add: activeIndices_def exampleEnv_def active_history toString_digits toString_0
      upt_rec toString.simps [of "Suc _"] toString.simps [of "numeral _"])


lemma act_receive_second: "activeIndices exampleEnv Receive 6 20 = []"
  by (simp add: activeIndices_def exampleEnv_def active_history toString_digits toString_0
      upt_rec toString.simps [of "Suc _"] toString.simps [of "numeral _"])

lemma act_gap: "activeIndices (historyEnv [0, 40]) Receive 20 0 = [0]"
  by (simp add: activeIndices_def active_history toString_40 toString_0
      upt_rec toString.simps [of "Suc _"] toString.simps [of "numeral _"])

lemma act_gap_second: "activeIndices (historyEnv [0, 40]) Receive (Suc 0) 20 = []"
  by (simp add: activeIndices_def active_history toString_40 toString_0 toString_20)

lemma act_twenty: "activeIndices (historyEnv [0, 20]) Receive 20 0 = [0]"
  by (simp add: activeIndices_def active_history toString_20 toString_0
      upt_rec toString.simps [of "Suc _"] toString.simps [of "numeral _"])

lemma act_twenty_second: "activeIndices (historyEnv [0, 20]) Receive (Suc 0) 20 = [20]"
  by (simp add: activeIndices_def active_history toString_20 toString_0)

lemma act_twenty_third: "activeIndices (historyEnv [0, 20]) Receive 21 21 = []"
  by (simp add: activeIndices_def active_history toString_20 toString_0
      upt_rec toString.simps [of "Suc _"] toString.simps [of "numeral _"])

lemma doDiscovery_none_active:
  assumes "activeIndices env t threshold 0 = []"
  shows "map_option fst (doDiscovery env threshold t threshold 0 w) = Some (- 1)"
  using assms by (subst doDiscovery_unfold) simp

lemma doDiscovery_first_window:
  assumes "activeIndices env t threshold 0 \<noteq> []"
      and "activeIndices env t (Suc (Max (set (activeIndices env t threshold 0)))) threshold = []"
  shows "map_option fst (doDiscovery env threshold t threshold 0 w) =
           Some (int (Max (set (activeIndices env t threshold 0))))"
  using assms
  by (subst doDiscovery_unfold, simp, subst doDiscovery_unfold, simp)

lemma updateUtxos_addressManager:
  "addressManager (updateUtxos env addresses w) = addressManager w"
proof -
  have "addressManager
          (foldl (\<lambda>w' addr. w'\<lparr>utxoSet := snd (add (getUtxos env addr) addr (utxoSet w'))\<rparr>)
             w addresses) = addressManager w"
    by (induction addresses arbitrary: w) simp_all
  then show ?thesis by (simp add: updateUtxos_def)
qed

lemma addressDiscovery_cursors:
  assumes r: "doDiscovery env threshold Receive threshold 0 w = Some (r, w1)"
      and c: "doDiscovery env threshold Change threshold 0 w1 = Some (c, w2)"
  shows "\<exists>w'. addressDiscovery env threshold w = Some w'
           \<and> receiveCounter (addressManager w') =
               nat (max (int (receiveCounter (addressManager w))) (r + 1))
           \<and> changeCounter (addressManager w') =
               nat (max (int (changeCounter (addressManager w))) (c + 1))"
proof -
  from doDiscovery_addressManager [OF r] have "addressManager w1 = addressManager w" by simp
  moreover from doDiscovery_addressManager [OF c] have "addressManager w2 = addressManager w1"
    by simp
  ultimately have am: "addressManager w2 = addressManager w" by simp
  show ?thesis
    by (simp add: addressDiscovery_def r c updateUtxos_addressManager advance_def am)
qed

lemma addressDiscovery_returns:
  assumes "\<forall>i\<ge>B. \<not> active env Receive i \<and> \<not> active env Change i"
  shows "addressDiscovery env threshold w \<noteq> None"
proof -
  from assms have "\<forall>i\<ge>B. \<not> active env Receive i" by blast
  from doDiscovery_returns [OF this, of threshold threshold 0 w] obtain r w1 where
    r: "doDiscovery env threshold Receive threshold 0 w = Some (r, w1)" by auto
  from assms have "\<forall>i\<ge>B. \<not> active env Change i" by blast
  from doDiscovery_returns [OF this, of threshold threshold 0 w1] obtain c w2 where
    c: "doDiscovery env threshold Change threshold 0 w1 = Some (c, w2)" by auto
  from addressDiscovery_cursors [OF r c] show ?thesis by auto
qed

text \<open>
  C6. One step of \<open>doDiscovery\<close> on the batch of \<open>n\<close> addresses from \<open>offset\<close>: with
  no active address in the batch it returns \<open>offset - (threshold - n) - 1\<close>; otherwise
  it goes on with the batch size one more than the largest active index of the batch and
  the offset increased by \<open>n\<close>. In both cases the histories of the batch are stored.
  When the first batch, of \<open>threshold\<close> addresses from 0, has no active address the
  result is \<open>-1\<close>.
\<close>

theorem doDiscovery_step:
  "doDiscovery env threshold t n offset w =
     (if activeIndices env t n offset = []
      then Some (int offset - (int threshold - int n) - 1,
                 snd (addTransactions env (map (deriveAddress env t) [offset ..< offset + n]) w))
      else doDiscovery env threshold t (1 + Max (set (activeIndices env t n offset))) (offset + n)
             (snd (addTransactions env (map (deriveAddress env t) [offset ..< offset + n]) w)))
   \<and> (activeIndices env t threshold 0 = [] \<longrightarrow>
        map_option fst (doDiscovery env threshold t threshold 0 w) = Some (- 1))"
  using doDiscovery_unfold [of env threshold t n offset w]
    doDiscovery_none_active [of env t threshold w]
  by simp

text \<open>
  With the example histories and a threshold of 20, the change chain ends at once with
  \<open>-1\<close>, and the receive chain, active at 0, 2 and 5, goes on with a batch of 6 from 20.
\<close>

theorem doDiscovery_step_witness:
  "activeIndices exampleEnv Change 20 0 = []
   \<and> map_option fst (doDiscovery exampleEnv 20 Change 20 0 (newWallet exampleEnv)) = Some (- 1)
   \<and> activeIndices exampleEnv Receive 20 0 = [0, 2, 5]
   \<and> doDiscovery exampleEnv 20 Receive 20 0 (newWallet exampleEnv) =
       doDiscovery exampleEnv 20 Receive 6 20
         (snd (addTransactions exampleEnv (map (deriveAddress exampleEnv Receive) [0 ..< 0 + 20])
                 (newWallet exampleEnv)))"
proof -
  have ch: "activeIndices exampleEnv Change 20 0 = []"
    by (simp add: exampleEnv_def act_change)
  from doDiscovery_step [of exampleEnv 20 Change 20 0 "newWallet exampleEnv"] ch
  have a: "map_option fst (doDiscovery exampleEnv 20 Change 20 0 (newWallet exampleEnv)) = Some (- 1)"
    by blast
  from doDiscovery_step [of exampleEnv 20 Receive 20 0 "newWallet exampleEnv"]
  have b: "doDiscovery exampleEnv 20 Receive 20 0 (newWallet exampleEnv) =
       doDiscovery exampleEnv 20 Receive 6 20
         (snd (addTransactions exampleEnv (map (deriveAddress exampleEnv Receive) [0 ..< 0 + 20])
                 (newWallet exampleEnv)))"
    by (simp only: act_receive) simp
  from ch a b act_receive show ?thesis by blast
qed

text \<open>
  C5, amended. When the active indices are bounded, \<open>doDiscovery\<close> returns, from any
  batch. Started as \<open>addressDiscovery\<close> starts it, it returns \<open>-1\<close> when no index
  below the threshold is active; and when some is, the largest being \<open>m\<close>, and none of
  the \<open>m + 1\<close> indices from the threshold on is active, it returns \<open>m\<close>. When
  both chains return, \<open>addressDiscovery\<close> returns and has moved each cursor to the
  larger of its value and the returned index plus one; and both do when the active
  indices of both chains are bounded.
\<close>

theorem addressDiscovery_first_window:
  "((\<exists>B. \<forall>i\<ge>B. \<not> active env t i) \<longrightarrow> doDiscovery env threshold t n offset w \<noteq> None)
   \<and> (activeIndices env t threshold 0 = [] \<longrightarrow>
        map_option fst (doDiscovery env threshold t threshold 0 w) = Some (- 1))
   \<and> (activeIndices env t threshold 0 \<noteq> []
        \<and> activeIndices env t (Suc (Max (set (activeIndices env t threshold 0)))) threshold = [] \<longrightarrow>
        map_option fst (doDiscovery env threshold t threshold 0 w) =
          Some (int (Max (set (activeIndices env t threshold 0)))))
   \<and> (\<forall>r w1 c w2.
        doDiscovery env threshold Receive threshold 0 w = Some (r, w1)
        \<and> doDiscovery env threshold Change threshold 0 w1 = Some (c, w2) \<longrightarrow>
        (\<exists>w'. addressDiscovery env threshold w = Some w'
           \<and> receiveCounter (addressManager w') =
               nat (max (int (receiveCounter (addressManager w))) (r + 1))
           \<and> changeCounter (addressManager w') =
               nat (max (int (changeCounter (addressManager w))) (c + 1))))
   \<and> ((\<exists>B. \<forall>i\<ge>B. \<not> active env Receive i \<and> \<not> active env Change i) \<longrightarrow>
        addressDiscovery env threshold w \<noteq> None)"
  using doDiscovery_returns [of _ env t threshold n offset w]
    doDiscovery_none_active [of env t threshold w]
    doDiscovery_first_window [of env t threshold w]
    addressDiscovery_cursors [of env threshold w]
    addressDiscovery_returns [of _ env threshold w]
  by blast

lemma active_history_iff: "active (historyEnv idxs) Receive i \<longleftrightarrow> i \<in> set idxs"
  using toString_inj by (auto simp: active_history)

lemma example_bounded: "\<forall>i\<ge>6. \<not> active exampleEnv Receive i"
  by (auto simp: exampleEnv_def active_history_iff)

text \<open>
  The examples of the specification, with a threshold of 20: activity at the receive
  indices 0, 2 and 5 gives 5 and the cursor 6; no activity on the change chain gives
  \<open>-1\<close> and the cursor stays at 0.
\<close>

theorem addressDiscovery_first_window_witness:
  "addressDiscovery exampleEnv 20 (newWallet exampleEnv) \<noteq> None
   \<and> doDiscovery exampleEnv 20 Receive 20 0 (newWallet exampleEnv) \<noteq> None
   \<and> map_option fst (doDiscovery exampleEnv 20 Receive 20 0 (newWallet exampleEnv)) = Some 5
   \<and> map_option fst (doDiscovery exampleEnv 20 Change 20 0 (newWallet exampleEnv)) = Some (- 1)
   \<and> receiveCounter (addressManager (newWallet exampleEnv)) = 1
   \<and> changeCounter (addressManager (newWallet exampleEnv)) = 0
   \<and> (\<exists>w'. addressDiscovery exampleEnv 20 (newWallet exampleEnv) = Some w'
         \<and> receiveCounter (addressManager w') = 6
         \<and> changeCounter (addressManager w') = 0)"
proof -
  let ?w = "newWallet exampleEnv"
  note t = addressDiscovery_first_window [of exampleEnv Receive 20 20 0 ?w]
  have ch: "activeIndices exampleEnv Change n offset = []" for n offset
    by (simp add: exampleEnv_def act_change)
  from t example_bounded have a: "doDiscovery exampleEnv 20 Receive 20 0 ?w \<noteq> None"
    by blast
  have "activeIndices exampleEnv Receive 20 0 \<noteq> []
        \<and> activeIndices exampleEnv Receive (Suc (Max (set (activeIndices exampleEnv Receive 20 0)))) 20 = []"
    by (simp add: act_receive act_receive_second)
  with t have "map_option fst (doDiscovery exampleEnv 20 Receive 20 0 ?w) =
      Some (int (Max (set (activeIndices exampleEnv Receive 20 0))))"
    by blast
  then have b: "map_option fst (doDiscovery exampleEnv 20 Receive 20 0 ?w) = Some 5"
    by (simp add: act_receive)
  then obtain w1 where r: "doDiscovery exampleEnv 20 Receive 20 0 ?w = Some (5, w1)"
    by auto
  from addressDiscovery_first_window [of exampleEnv Change 20 20 0 ?w] ch
  have c: "map_option fst (doDiscovery exampleEnv 20 Change 20 0 ?w) = Some (- 1)"
    by blast
  from addressDiscovery_first_window [of exampleEnv Change 20 20 0 w1] ch
  have "map_option fst (doDiscovery exampleEnv 20 Change 20 0 w1) = Some (- 1)"
    by blast
  then obtain w2 where c1: "doDiscovery exampleEnv 20 Change 20 0 w1 = Some (- 1, w2)"
    by auto
  have am: "receiveCounter (addressManager ?w) = 1" "changeCounter (addressManager ?w) = 0"
    by (simp_all add: newWallet_def nextAddress_def Let_def)
  from t r c1 have "\<exists>w'. addressDiscovery exampleEnv 20 ?w = Some w'
           \<and> receiveCounter (addressManager w') =
               nat (max (int (receiveCounter (addressManager ?w))) (5 + 1))
           \<and> changeCounter (addressManager w') =
               nat (max (int (changeCounter (addressManager ?w))) (- 1 + 1))"
    by blast
  then have d: "\<exists>w'. addressDiscovery exampleEnv 20 ?w = Some w'
         \<and> receiveCounter (addressManager w') = 6 \<and> changeCounter (addressManager w') = 0"
    by (simp add: am)
  have "\<forall>i\<ge>6. \<not> active exampleEnv Receive i \<and> \<not> active exampleEnv Change i"
    using example_bounded by (simp add: exampleEnv_def active_history_change)
  with t have e: "addressDiscovery exampleEnv 20 ?w \<noteq> None"
    by blast
  from a b c am d e show ?thesis by blast
qed

text \<open>
  C5 as stated fails by the gap limit: with activity at the indices 0 and 40 and a
  threshold of 20 the scan stops before it reaches 40, and returns 0.
\<close>

theorem doDiscovery_gap_counterexample:
  "active (historyEnv [0, 40]) Receive 40
   \<and> \<not> (\<exists>i. 40 < i \<and> active (historyEnv [0, 40]) Receive i)
   \<and> map_option fst (doDiscovery (historyEnv [0, 40]) 20 Receive 20 0
                        (newWallet (historyEnv [0, 40]))) = Some 0"
proof -
  have "map_option fst (doDiscovery (historyEnv [0, 40]) 20 Receive 20 0
                          (newWallet (historyEnv [0, 40]))) = Some 0"
    using doDiscovery_first_window [of "historyEnv [0, 40]" Receive 20]
    by (simp add: act_gap act_gap_second)
  then show ?thesis by (auto simp: active_history_iff)
qed

text \<open>
  Beyond the second batch the returned index is not the largest active one: the batch
  size is taken from an absolute index and the result from the offset. With a threshold
  of 20 and activity at the indices 0 and 20 only, the third batch starts at 21 with 21
  addresses, and the result is 21.
\<close>

lemma doDiscovery_third_batch_example:
  "active (historyEnv [0, 20]) Receive 20
   \<and> \<not> (\<exists>i. 20 < i \<and> active (historyEnv [0, 20]) Receive i)
   \<and> map_option fst (doDiscovery (historyEnv [0, 20]) 20 Receive 20 0 w) = Some 21"
proof -
  have "doDiscovery (historyEnv [0, 20]) 20 Receive 20 0 w =
        doDiscovery (historyEnv [0, 20]) 20 Receive (Suc 0) 20
          (snd (addTransactions (historyEnv [0, 20])
                  (map (deriveAddress (historyEnv [0, 20]) Receive) [0 ..< 0 + 20]) w))"
    by (subst doDiscovery_unfold) (simp add: act_twenty)
  also have "map_option fst \<dots> = map_option fst
        (doDiscovery (historyEnv [0, 20]) 20 Receive 21 21
          (snd (addTransactions (historyEnv [0, 20])
                  (map (deriveAddress (historyEnv [0, 20]) Receive) [20 ..< 20 + Suc 0])
             (snd (addTransactions (historyEnv [0, 20])
                  (map (deriveAddress (historyEnv [0, 20]) Receive) [0 ..< 0 + 20]) w)))))"
    by (subst doDiscovery_unfold) (simp add: act_twenty_second)
  also have "\<dots> = Some 21"
    by (subst doDiscovery_unfold) (simp add: act_twenty_third)
  finally show ?thesis by (auto simp: active_history_iff)
qed

end
